theory Spec2Isabelle
  imports Complex_Main "HOL-Library.Word"
begin

section \<open>JavaScript values used by the pipeline\<close>

text \<open>
  A JavaScript string is a sequence of UTF-16 code units and \<open>length\<close> counts code
  units, so a string is a list of 16-bit words. The literals of the source are ASCII and
  are written with \<open>lit\<close>. Binary data (image and video buffers) is a list of bytes.
\<close>

type_synonym jsstring = "16 word list"

type_synonym bytes = "8 word list"

definition lit :: "string \<Rightarrow> jsstring" where
  "lit s = map (\<lambda>c. word_of_nat (of_char c)) s"

text \<open>
  \<open>String.prototype.substring(a, b)\<close>: both arguments are clamped to \<open>[0, length]\<close>
  (a negative argument counts as 0) and swapped when \<open>a > b\<close>.
\<close>

definition substring :: "jsstring \<Rightarrow> int \<Rightarrow> int \<Rightarrow> jsstring" where
  "substring s a b =
     (let n = int (length s);
          a' = max 0 (min a n);
          b' = max 0 (min b n);
          lo = min a' b';
          hi = max a' b'
      in take (nat (hi - lo)) (drop (nat lo) s))"

text \<open>
  A value read from a request body or from the environment is falsy when it is absent
  (\<open>undefined\<close>) or the empty string.
\<close>

definition truthy :: "jsstring option \<Rightarrow> bool" where
  "truthy v = (case v of None \<Rightarrow> False | Some s \<Rightarrow> s \<noteq> [])"

text \<open>
  A thrown error: \<open>new Error(message)\<close>, or a \<open>TypeError\<close> of the runtime (a failed
  network call, a property read on \<open>undefined\<close>). \<open>error_message\<close> is \<open>err.message\<close>
  and \<open>error_string\<close> is the text \<open>${err}\<close> gives.
\<close>

datatype js_error = JsError jsstring | JsTypeError jsstring

fun error_message :: "js_error \<Rightarrow> jsstring" where
  "error_message (JsError m) = m"
| "error_message (JsTypeError m) = m"

fun error_string :: "js_error \<Rightarrow> jsstring" where
  "error_string (JsError m) = lit ''Error: '' @ m"
| "error_string (JsTypeError m) = lit ''TypeError: '' @ m"

text \<open>
  What \<open>fetch\<close> gives back: it throws, or it returns a response
  (\<open>FetchResponse ok statusText body\<close>).
\<close>

datatype fetch_result =
    FetchThrows js_error
  | FetchResponse bool jsstring bytes

section \<open>Consistency analyzer, diff mode: \<open>POST /api/analyze-diff\<close>\<close>

text \<open>
  The request body, the answer of the reasoning service (\<open>generateContent\<close> throws or
  returns a text), and the response of the route: \<open>AnalyzeDiffOk detailedDiff
  originalPrompt diffLength\<close>, or \<open>AnalyzeDiffError status error details\<close>. Timings
  (\<open>processingTime\<close>, \<open>apiTime\<close>) are left out of the response. The fields of the
  request carry the prefix \<open>req_\<close>.
\<close>

record analyze_diff_request =
  req_originalPrompt :: "jsstring option"
  req_originalFrameBase64 :: "jsstring option"
  req_editedFrameUrl :: "jsstring option"

datatype gemini_result = GeminiThrows js_error | GeminiText jsstring

datatype analyze_diff_response =
    AnalyzeDiffOk jsstring jsstring nat
  | AnalyzeDiffError nat jsstring "jsstring option"

text \<open>Lines 254-258: the 5000 character limit enforced on the model's text.\<close>

definition enforce_diff_limit :: "jsstring \<Rightarrow> jsstring" where
  "enforce_diff_limit detailedDiff =
     (if int (length detailedDiff) > 5000
      then substring detailedDiff 0 4997 @ lit ''...''
      else detailedDiff)"

text \<open>
  The route. \<open>googleApiKey\<close> is the environment variable, \<open>fetch\<close> downloads the edited
  frame, and \<open>generateContent\<close> stands for the reasoning service called with the analysis
  prompt built from \<open>originalPrompt\<close> and the two images.
\<close>

definition analyze_diff_POST ::
  "jsstring option \<Rightarrow> (jsstring \<Rightarrow> fetch_result) \<Rightarrow>
   (jsstring \<Rightarrow> jsstring \<Rightarrow> bytes \<Rightarrow> gemini_result) \<Rightarrow>
   analyze_diff_request \<Rightarrow> analyze_diff_response" where
  "analyze_diff_POST googleApiKey fetch generateContent req =
     (if \<not> truthy googleApiKey
      then AnalyzeDiffError 500 (lit ''Google API key not configured'') None
      else if \<not> truthy (req_originalPrompt req) \<or> \<not> truthy (req_originalFrameBase64 req)
              \<or> \<not> truthy (req_editedFrameUrl req)
      then AnalyzeDiffError 400
             (lit ''Missing required parameters: originalPrompt, originalFrameBase64, editedFrameUrl'')
             None
      else
        (case fetch (the (req_editedFrameUrl req)) of
           FetchThrows err \<Rightarrow>
             AnalyzeDiffError 500 (lit ''Failed to analyze diff'') (Some (error_message err))
         | FetchResponse ok st body \<Rightarrow>
             if \<not> ok
             then AnalyzeDiffError 500 (lit ''Failed to analyze diff'')
                    (Some (lit ''Failed to fetch edited frame: '' @ st))
             else
               (case generateContent (the (req_originalPrompt req))
                       (the (req_originalFrameBase64 req)) body of
                  GeminiThrows err \<Rightarrow>
                    AnalyzeDiffError 500 (lit ''Failed to analyze diff'')
                      (Some (error_message err))
                | GeminiText t \<Rightarrow>
                    (let detailedDiff = enforce_diff_limit t
                     in AnalyzeDiffOk detailedDiff (the (req_originalPrompt req))
                          (length detailedDiff)))))"

section \<open>Prompt composition for a non-reference frame\<close>

text \<open>
  \<open>processFrameWithDiff\<close> (VideoEditor.tsx, lines 83-93): the diff specification is cut
  to \<open>1500 - originalPrompt.length\<close> code units and marked, then placed in the template.
\<close>

definition truncatedDiff :: "jsstring \<Rightarrow> jsstring \<Rightarrow> jsstring" where
  "truncatedDiff detailedDiffSpec originalPrompt =
     (let maxDiffLength = 1500 - int (length originalPrompt)
      in if int (length detailedDiffSpec) > maxDiffLength
         then substring detailedDiffSpec 0 maxDiffLength @ lit ''... [truncated]''
         else detailedDiffSpec)"

definition diffBasedPrompt :: "jsstring \<Rightarrow> jsstring \<Rightarrow> jsstring" where
  "diffBasedPrompt detailedDiffSpec originalPrompt =
     lit ''Apply this specification: \"'' @ originalPrompt
     @ lit ''\"\<newline>\<newline>Details: '' @ truncatedDiff detailedDiffSpec originalPrompt
     @ lit ''\<newline>\<newline>Apply these changes precisely to maintain consistency.''"

text \<open>
  The edit route's own check of the prompt (edit-frame/route.ts, lines 48-55): a prompt
  of more than 2000 code units is answered with status 400.
\<close>

definition prompt_too_long :: "jsstring \<Rightarrow> bool" where
  "prompt_too_long prompt = (int (length prompt) > 2000)"

section \<open>Numbers in template literals\<close>

text \<open>
  \<open>${n}\<close> and \<open>n.toString()\<close> for a non-negative integer: its decimal digits.
  \<open>padStart\<close> fills a string from the left up to a target length.
\<close>

function show_nat :: "nat \<Rightarrow> jsstring" where
  "show_nat n =
     (if n < 10 then [word_of_nat (48 + n)]
      else show_nat (n div 10) @ [word_of_nat (48 + n mod 10)])"
  by pat_completeness auto
termination
  by (relation "measure (\<lambda>n. n)") auto

declare show_nat.simps [simp del]

definition padStart :: "jsstring \<Rightarrow> nat \<Rightarrow> jsstring \<Rightarrow> jsstring" where
  "padStart s targetLength padString =
     (if targetLength \<le> length s \<or> padString = [] then s
      else take (targetLength - length s)
             (concat (replicate (targetLength - length s) padString)) @ s)"

section \<open>Frames\<close>

text \<open>
  \<open>ExtractedFrame\<close> (video-processor.ts) and \<open>EditedFrame\<close> (gemini-editor.ts). Field
  names are global in Isabelle, so the fields carry the prefixes \<open>xf_\<close> and \<open>ef_\<close>.
  \<open>GeminiEditor.editFrames\<close> reads \<open>frame.url\<close>, a property the interface
  \<open>ExtractedFrame\<close> does not declare: \<open>xf_url\<close> is that property, \<open>None\<close> when the
  object has none (\<open>undefined\<close>). For the same reason the two URLs of an edited frame are
  optional values.
\<close>

record ExtractedFrame =
  xf_index :: nat
  xf_timestamp :: real
  xf_base64 :: jsstring
  xf_filename :: jsstring
  xf_url :: "jsstring option"

record EditedFrame =
  ef_index :: nat
  ef_originalUrl :: "jsstring option"
  ef_editedUrl :: "jsstring option"
  ef_editedBlob :: "bytes option"

text \<open>
  \<open>EditProgress\<close>: \<open>currentFrame\<close> and \<open>message\<close> are optional, \<open>status\<close> is one of
  the string literals of the source.
\<close>

record EditProgress =
  ep_current :: nat
  ep_total :: nat
  ep_currentFrame :: "nat option"
  ep_status :: jsstring
  ep_message :: "jsstring option"

section \<open>Frame extraction: \<open>POST /api/extract-frames\<close>\<close>

text \<open>
  The probe of the uploaded file (\<open>ffprobe\<close>) throws or lists the streams; of the video
  stream, if there is one, the route reads the duration, the frame rate and the size.
  Durations and frame rates are real numbers here: the special floating-point values
  (\<open>NaN\<close>, the infinities) and rounding are not modelled.
\<close>

record video_stream =
  vs_duration :: real
  vs_fps :: real
  vs_width :: nat
  vs_height :: nat

datatype probe_result = ProbeThrows jsstring | ProbeStreams "video_stream option"

record VideoMetadata =
  md_duration :: real
  md_fps :: real
  md_width :: nat
  md_height :: nat

text \<open>
  The response: \<open>ExtractOk frames metadata\<close> or \<open>ExtractError status error details\<close>.
\<close>

datatype extract_response =
    ExtractOk "ExtractedFrame list" VideoMetadata
  | ExtractError nat jsstring "jsstring option"

text \<open>
  Lines 87-93 of route.ts: the extraction plan. \<open>interval\<close> and \<open>maxFrames\<close> are the
  numbers the route read from the form, \<open>Number(formData.get(...) || default)\<close>.
  \<open>totalFrames\<close> is the floor of the exact product: the code floors the product of two
  doubles, which can fall just below an integer that the exact product reaches, and
  then counts one frame less.
\<close>

definition form_number :: "int option \<Rightarrow> int \<Rightarrow> int" where
  "form_number field dflt = (case field of None \<Rightarrow> dflt | Some n \<Rightarrow> n)"

definition totalFrames :: "video_stream \<Rightarrow> int" where
  "totalFrames v = \<lfloor>vs_duration v * vs_fps v\<rfloor>"

definition frameInterval :: "int \<Rightarrow> int" where
  "frameInterval interval = max 1 interval"

definition framesToExtract :: "video_stream \<Rightarrow> int \<Rightarrow> int \<Rightarrow> int" where
  "framesToExtract v interval maxFrames =
     min \<lfloor>real_of_int (totalFrames v) / real_of_int (frameInterval interval)\<rfloor> maxFrames"

definition frame_timestamp :: "video_stream \<Rightarrow> int \<Rightarrow> nat \<Rightarrow> real" where
  "frame_timestamp v interval i =
     (let frameNumber = int i * frameInterval interval
      in real_of_int frameNumber / vs_fps v)"

definition frame_filename :: "jsstring \<Rightarrow> nat \<Rightarrow> jsstring" where
  "frame_filename videoId i = lit ''frame_'' @ videoId @ lit ''_'' @ show_nat i @ lit ''.png''"

text \<open>
  The sequential loop of route.ts (lines 107-138). \<open>grab i timestamp\<close> stands for the
  decoder call on frame \<open>i\<close> followed by reading the image back and encoding it as
  base64: it throws (\<open>Inl\<close>) or gives the base64 text. The first failure leaves the loop.
\<close>

function extract_loop ::
  "(nat \<Rightarrow> real \<Rightarrow> jsstring + jsstring) \<Rightarrow> jsstring \<Rightarrow> video_stream \<Rightarrow> int \<Rightarrow> int \<Rightarrow>
   nat \<Rightarrow> jsstring + ExtractedFrame list" where
  "extract_loop grab videoId v interval n i =
     (if int i < n
      then (case grab i (frame_timestamp v interval i) of
              Inl err \<Rightarrow> Inl err
            | Inr b64 \<Rightarrow>
                (case extract_loop grab videoId v interval n (Suc i) of
                   Inl err \<Rightarrow> Inl err
                 | Inr frames \<Rightarrow>
                     Inr (\<lparr>xf_index = i,
                           xf_timestamp = frame_timestamp v interval i,
                           xf_base64 = lit ''data:image/png;base64,'' @ b64,
                           xf_filename = frame_filename videoId i,
                           xf_url = None\<rparr> # frames)))
      else Inr [])"
  by pat_completeness auto
termination
  by (relation "measure (\<lambda>(grab, videoId, v, interval, n, i). nat (n - int i))") auto

declare extract_loop.simps [simp del]

definition extract_frames_POST ::
  "bool \<Rightarrow> int option \<Rightarrow> int option \<Rightarrow> jsstring \<Rightarrow> probe_result \<Rightarrow>
   (nat \<Rightarrow> real \<Rightarrow> jsstring + jsstring) \<Rightarrow> extract_response" where
  "extract_frames_POST file_present interval_field maxFrames_field videoId probe grab =
     (let interval = form_number interval_field 30;
          maxFrames = form_number maxFrames_field 10
      in if \<not> file_present then ExtractError 400 (lit ''No video file provided'') None
         else
           (case probe of
              ProbeThrows msg \<Rightarrow> ExtractError 500 (lit ''Failed to extract frames'') (Some msg)
            | ProbeStreams None \<Rightarrow>
                ExtractError 500 (lit ''Failed to extract frames'')
                  (Some (lit ''No video stream found''))
            | ProbeStreams (Some v) \<Rightarrow>
                (case extract_loop grab videoId v interval
                        (framesToExtract v interval maxFrames) 0 of
                   Inl msg \<Rightarrow> ExtractError 500 (lit ''Failed to extract frames'') (Some msg)
                 | Inr frames \<Rightarrow>
                     ExtractOk frames
                       \<lparr>md_duration = vs_duration v, md_fps = vs_fps v,
                        md_width = vs_width v, md_height = vs_height v\<rparr>)))"

text \<open>
  The parallel variant of the route (part 003, lines 97-217): the frame descriptions are
  computed first (lines 133-147), then every frame is grabbed and the results are
  collected in the order of the descriptions. A failed grab is reported with its frame
  number; when several fail, the model reports the one with the least index.
\<close>

record frameInfo =
  fi_index :: nat
  fi_timestamp :: real
  fi_filename :: jsstring

function frameInfos_loop ::
  "jsstring \<Rightarrow> video_stream \<Rightarrow> int \<Rightarrow> int \<Rightarrow> nat \<Rightarrow> frameInfo list" where
  "frameInfos_loop videoId v interval n i =
     (if int i < n
      then \<lparr>fi_index = i, fi_timestamp = frame_timestamp v interval i,
            fi_filename = frame_filename videoId i\<rparr>
           # frameInfos_loop videoId v interval n (Suc i)
      else [])"
  by pat_completeness auto
termination
  by (relation "measure (\<lambda>(videoId, v, interval, n, i). nat (n - int i))") auto

declare frameInfos_loop.simps [simp del]

fun extract_all ::
  "(nat \<Rightarrow> real \<Rightarrow> jsstring + jsstring) \<Rightarrow> frameInfo list \<Rightarrow> jsstring + ExtractedFrame list" where
  "extract_all grab [] = Inr []"
| "extract_all grab (info # infos) =
     (case grab (fi_index info) (fi_timestamp info) of
        Inl err \<Rightarrow>
          Inl (lit ''Frame '' @ show_nat (fi_index info + 1) @ lit '' extraction failed: '' @ err)
      | Inr b64 \<Rightarrow>
          (case extract_all grab infos of
             Inl err \<Rightarrow> Inl err
           | Inr frames \<Rightarrow>
               Inr (\<lparr>xf_index = fi_index info,
                     xf_timestamp = fi_timestamp info,
                     xf_base64 = lit ''data:image/png;base64,'' @ b64,
                     xf_filename = fi_filename info,
                     xf_url = None\<rparr> # frames)))"

definition extract_frames_parallel_POST ::
  "bool \<Rightarrow> int option \<Rightarrow> int option \<Rightarrow> jsstring \<Rightarrow> probe_result \<Rightarrow>
   (nat \<Rightarrow> real \<Rightarrow> jsstring + jsstring) \<Rightarrow> extract_response" where
  "extract_frames_parallel_POST file_present interval_field maxFrames_field videoId probe grab =
     (let interval = form_number interval_field 30;
          maxFrames = form_number maxFrames_field 10
      in if \<not> file_present then ExtractError 400 (lit ''No video file provided'') None
         else
           (case probe of
              ProbeThrows msg \<Rightarrow> ExtractError 500 (lit ''Failed to extract frames'') (Some msg)
            | ProbeStreams None \<Rightarrow>
                ExtractError 500 (lit ''Failed to extract frames'')
                  (Some (lit ''No video stream found''))
            | ProbeStreams (Some v) \<Rightarrow>
                (let requestedFrames = framesToExtract v interval maxFrames
                 in case extract_all grab (frameInfos_loop videoId v interval requestedFrames 0) of
                      Inl msg \<Rightarrow> ExtractError 500 (lit ''Failed to extract frames'') (Some msg)
                    | Inr frames \<Rightarrow>
                        ExtractOk frames
                          \<lparr>md_duration = vs_duration v, md_fps = vs_fps v,
                           md_width = vs_width v, md_height = vs_height v\<rparr>)))"

section \<open>Sequential editing: \<open>GeminiEditor.editFrames\<close>\<close>

text \<open>
  What a call of \<open>POST /api/edit-frame\<close> gives the client: \<open>fetch\<close> throws, or there is
  a response \<open>EditApiResponse ok statusText urls\<close>, where \<open>urls\<close> are the URLs of
  \<open>result.images\<close>. Reading \<open>result.images[0].url\<close> of an empty list throws a
  \<open>TypeError\<close>, whose message quotes the property name between apostrophes (code
  unit 39).
\<close>

datatype edit_api_result =
    EditApiThrows js_error
  | EditApiResponse bool jsstring "jsstring list"

definition first_image_url :: "jsstring list \<Rightarrow> js_error + jsstring" where
  "first_image_url urls =
     (case urls of
        [] \<Rightarrow> Inl (JsTypeError (lit ''Cannot read properties of undefined (reading ''
                               @ [39] @ lit ''url'' @ [39] @ lit '')''))
      | u # _ \<Rightarrow> Inr u)"

text \<open>
  \<open>downloadImage\<close> (lines 127-133), and the body of the \<open>try\<close> block of \<open>editFrames\<close>
  (lines 49-95) for the frame at position \<open>i\<close>: \<open>Inl\<close> is the error the \<open>catch\<close> block
  receives. \<open>edit_api i\<close> and \<open>download i\<close> stand for the two network calls of
  iteration \<open>i\<close>.
\<close>

definition downloadImage :: "(jsstring \<Rightarrow> fetch_result) \<Rightarrow> jsstring \<Rightarrow> js_error + bytes" where
  "downloadImage fetch url =
     (case fetch url of
        FetchThrows err \<Rightarrow> Inl err
      | FetchResponse ok st body \<Rightarrow>
          if \<not> ok then Inl (JsError (lit ''Failed to download image: '' @ st))
          else Inr body)"

definition try_edit_frame ::
  "(nat \<Rightarrow> jsstring \<Rightarrow> jsstring option list \<Rightarrow> jsstring \<Rightarrow> edit_api_result) \<Rightarrow>
   (nat \<Rightarrow> jsstring \<Rightarrow> fetch_result) \<Rightarrow> jsstring \<Rightarrow> jsstring \<Rightarrow>
   nat \<Rightarrow> ExtractedFrame \<Rightarrow> jsstring option \<Rightarrow> js_error + EditedFrame" where
  "try_edit_frame edit_api download prompt outputFormat i frame previousEditedUrl =
     (let imageUrls = [xf_url frame]
            @ (if truthy previousEditedUrl \<and> i > 0 then [previousEditedUrl] else [])
      in case edit_api i prompt imageUrls outputFormat of
           EditApiThrows err \<Rightarrow> Inl err
         | EditApiResponse ok st urls \<Rightarrow>
             if \<not> ok then Inl (JsError (lit ''API request failed: '' @ st))
             else
               (case first_image_url urls of
                  Inl err \<Rightarrow> Inl err
                | Inr editedUrl \<Rightarrow>
                    (case downloadImage (download i) editedUrl of
                       Inl err \<Rightarrow> Inl err
                     | Inr editedBlob \<Rightarrow>
                         Inr \<lparr>ef_index = xf_index frame,
                              ef_originalUrl = xf_url frame,
                              ef_editedUrl = Some editedUrl,
                              ef_editedBlob = Some editedBlob\<rparr>)))"

text \<open>
  The loop of \<open>editFrames\<close> from position \<open>i\<close> on, with the frames still to process and
  the value of \<open>previousEditedUrl\<close>. It gives the frames pushed to \<open>editedFrames\<close> and
  the reports handed to \<open>onProgress\<close>, both in order. On an error the \<open>catch\<close> block
  (lines 96-114) reports it and pushes the frame with its own \<open>url\<close> as \<open>editedUrl\<close>.
  \<open>n\<close> is \<open>frames.length\<close>.
\<close>

fun editFrames_loop ::
  "(nat \<Rightarrow> jsstring \<Rightarrow> jsstring option list \<Rightarrow> jsstring \<Rightarrow> edit_api_result) \<Rightarrow>
   (nat \<Rightarrow> jsstring \<Rightarrow> fetch_result) \<Rightarrow> jsstring \<Rightarrow> jsstring \<Rightarrow> nat \<Rightarrow>
   nat \<Rightarrow> jsstring option \<Rightarrow> ExtractedFrame list \<Rightarrow> EditedFrame list \<times> EditProgress list" where
  "editFrames_loop edit_api download prompt outputFormat n i previousEditedUrl [] = ([], [])"
| "editFrames_loop edit_api download prompt outputFormat n i previousEditedUrl (frame # rest) =
     (let started =
            \<lparr>ep_current = i + 1, ep_total = n, ep_currentFrame = Some (xf_index frame),
             ep_status = lit ''processing'',
             ep_message = Some (lit ''Processing frame '' @ show_nat (i + 1) @ lit '' of ''
                                @ show_nat n)\<rparr>
      in case try_edit_frame edit_api download prompt outputFormat i frame previousEditedUrl of
           Inr editedFrame \<Rightarrow>
             (let (frames', reports') =
                    editFrames_loop edit_api download prompt outputFormat n (Suc i)
                      (ef_editedUrl editedFrame) rest
              in (editedFrame # frames', started # reports'))
         | Inl err \<Rightarrow>
             (let failed =
                    \<lparr>ep_current = i + 1, ep_total = n,
                     ep_currentFrame = Some (xf_index frame), ep_status = lit ''error'',
                     ep_message = Some (lit ''Error processing frame '' @ show_nat (i + 1)
                                        @ lit '': '' @ error_string err)\<rparr>;
                  (frames', reports') =
                    editFrames_loop edit_api download prompt outputFormat n (Suc i)
                      previousEditedUrl rest
              in (\<lparr>ef_index = xf_index frame, ef_originalUrl = xf_url frame,
                   ef_editedUrl = xf_url frame, ef_editedBlob = None\<rparr> # frames',
                  started # failed # reports')))"

text \<open>
  The value of the variable \<open>previousEditedUrl\<close> when the loop, started at position \<open>i\<close>
  with the value \<open>previousEditedUrl\<close>, begins the iteration \<open>k\<close> positions later: the
  variable is assigned after a successful edit only (line 95), and the \<open>catch\<close> block
  leaves it as it is.
\<close>

fun previousEditedUrl_at ::
  "(nat \<Rightarrow> jsstring \<Rightarrow> jsstring option list \<Rightarrow> jsstring \<Rightarrow> edit_api_result) \<Rightarrow>
   (nat \<Rightarrow> jsstring \<Rightarrow> fetch_result) \<Rightarrow> jsstring \<Rightarrow> jsstring \<Rightarrow>
   nat \<Rightarrow> jsstring option \<Rightarrow> ExtractedFrame list \<Rightarrow> nat \<Rightarrow> jsstring option" where
  "previousEditedUrl_at edit_api download prompt outputFormat i previousEditedUrl frames 0 =
     previousEditedUrl"
| "previousEditedUrl_at edit_api download prompt outputFormat i previousEditedUrl [] (Suc k) =
     previousEditedUrl"
| "previousEditedUrl_at edit_api download prompt outputFormat i previousEditedUrl
     (frame # rest) (Suc k) =
     (case try_edit_frame edit_api download prompt outputFormat i frame previousEditedUrl of
        Inr editedFrame \<Rightarrow>
          previousEditedUrl_at edit_api download prompt outputFormat (Suc i)
            (ef_editedUrl editedFrame) rest k
      | Inl err \<Rightarrow>
          previousEditedUrl_at edit_api download prompt outputFormat (Suc i)
            previousEditedUrl rest k)"

text \<open>
  \<open>editFrames\<close>: the loop from 0 with no previous URL, then the final report (lines
  117-122). The result is the returned array and the list of all reports. The progress
  handler is taken not to throw.
\<close>

definition editFrames ::
  "(nat \<Rightarrow> jsstring \<Rightarrow> jsstring option list \<Rightarrow> jsstring \<Rightarrow> edit_api_result) \<Rightarrow>
   (nat \<Rightarrow> jsstring \<Rightarrow> fetch_result) \<Rightarrow> ExtractedFrame list \<Rightarrow> jsstring \<Rightarrow> jsstring \<Rightarrow>
   EditedFrame list \<times> EditProgress list" where
  "editFrames edit_api download frames prompt outputFormat =
     (let (editedFrames, reports) =
            editFrames_loop edit_api download prompt outputFormat (length frames) 0 None frames
      in (editedFrames,
          reports @ [\<lparr>ep_current = length frames, ep_total = length frames,
                      ep_currentFrame = None, ep_status = lit ''completed'',
                      ep_message = Some (lit ''All frames processed successfully'')\<rparr>]))"

section \<open>Temporary files\<close>

text \<open>
  The part of the file system the reassembly route works on. A path is the list of its
  components, \<open>join\<close> adds one, and the file system lists the paths that exist with what
  they are. The operations are those of Node's \<open>fs\<close> and \<open>fs/promises\<close>, which follow
  POSIX: \<open>unlink\<close> removes a file, and fails with \<open>ENOENT\<close> on a path that does not
  exist and with \<open>EISDIR\<close> (\<open>EPERM\<close> on some systems) on a directory, which only
  \<open>rmdir\<close> or \<open>rm\<close> remove.
\<close>

type_synonym path = "jsstring list"

datatype node = File bytes | Directory

type_synonym filesystem = "(path \<times> node) list"

definition join :: "path \<Rightarrow> jsstring \<Rightarrow> path" where
  "join dir name = dir @ [name]"

definition existsSync :: "filesystem \<Rightarrow> path \<Rightarrow> bool" where
  "existsSync fs p = (map_of fs p \<noteq> None)"

definition remove_entry :: "path \<Rightarrow> filesystem \<Rightarrow> filesystem" where
  "remove_entry p fs = filter (\<lambda>(q, n). q \<noteq> p) fs"

definition mkdir_recursive :: "filesystem \<Rightarrow> path \<Rightarrow> filesystem" where
  "mkdir_recursive fs p = (if existsSync fs p then fs else (p, Directory) # fs)"

definition writeFile :: "filesystem \<Rightarrow> path \<Rightarrow> bytes \<Rightarrow> js_error + filesystem" where
  "writeFile fs p content =
     (if map_of fs p = Some Directory then Inl (JsError (lit ''EISDIR''))
      else if map_of fs (butlast p) \<noteq> Some Directory then Inl (JsError (lit ''ENOENT''))
      else Inr ((p, File content) # remove_entry p fs))"

definition readFile :: "filesystem \<Rightarrow> path \<Rightarrow> js_error + bytes" where
  "readFile fs p =
     (case map_of fs p of
        None \<Rightarrow> Inl (JsError (lit ''ENOENT''))
      | Some Directory \<Rightarrow> Inl (JsError (lit ''EISDIR''))
      | Some (File content) \<Rightarrow> Inr content)"

definition unlink :: "filesystem \<Rightarrow> path \<Rightarrow> js_error + filesystem" where
  "unlink fs p =
     (case map_of fs p of
        None \<Rightarrow> Inl (JsError (lit ''ENOENT''))
      | Some Directory \<Rightarrow> Inl (JsError (lit ''EISDIR''))
      | Some (File content) \<Rightarrow> Inr (remove_entry p fs))"

definition readdirSync :: "filesystem \<Rightarrow> path \<Rightarrow> jsstring list" where
  "readdirSync fs dir =
     map (\<lambda>(q, n). last q) (filter (\<lambda>(q, n). q \<noteq> [] \<and> butlast q = dir) fs)"

text \<open>
  \<open>unlink(p).catch(warn)\<close>: the error of a failed removal is logged and dropped, the
  file system stays as it is.
\<close>

definition unlink_catch :: "filesystem \<Rightarrow> path \<Rightarrow> filesystem" where
  "unlink_catch fs p = (case unlink fs p of Inl err \<Rightarrow> fs | Inr fs' \<Rightarrow> fs')"

section \<open>Reassembly: \<open>POST /api/reassemble-video\<close>\<close>

text \<open>
  A frame of the request body has an inline image, a URL, both or neither. The
  environment of one call of the route: the session identifier \<open>randomUUID()\<close>, the
  temporary directory of the system, the decoder of inline base64 data, \<open>fetch\<close>, and the
  encoder. The encoder is given the frame files the route wrote (name and content, in
  the order of the request) and the frame rate; it throws, perhaps leaving a partial
  output file, or produces the video file.
\<close>

record frame_data =
  fd_base64 :: "jsstring option"
  fd_url :: "jsstring option"

datatype ffmpeg_result = FfmpegOk bytes | FfmpegThrows js_error "bytes option"

record server_env =
  env_sessionId :: jsstring
  env_tmpdir :: path
  env_decode_base64 :: "jsstring \<Rightarrow> bytes"
  env_fetch :: "jsstring \<Rightarrow> fetch_result"
  env_ffmpeg :: "(jsstring \<times> bytes) list \<Rightarrow> nat \<Rightarrow> ffmpeg_result"

text \<open>
  The response: \<open>ReassembleOk video size\<close> (the video travels as a base64 data URI,
  which the client decodes again; the model passes the bytes), or
  \<open>ReassembleError status error details\<close>.
\<close>

datatype reassemble_response =
    ReassembleOk bytes nat
  | ReassembleError nat jsstring "jsstring option"

definition frameFilename :: "nat \<Rightarrow> jsstring" where
  "frameFilename index = lit ''frame_'' @ padStart (show_nat index) 4 (lit ''0'') @ lit ''.png''"

text \<open>
  \<open>processFrame\<close> (lines 51-84) up to the buffer: the inline image wins over the URL, and
  a frame with neither is an error.
\<close>

definition frameBuffer :: "server_env \<Rightarrow> frame_data \<Rightarrow> nat \<Rightarrow> js_error + bytes" where
  "frameBuffer env frame index =
     (if truthy (fd_base64 frame) then Inr (env_decode_base64 env (the (fd_base64 frame)))
      else if truthy (fd_url frame) then
        (case env_fetch env (the (fd_url frame)) of
           FetchThrows err \<Rightarrow> Inl err
         | FetchResponse ok st body \<Rightarrow>
             if \<not> ok then Inl (JsError (lit ''Failed to fetch frame image: '' @ st))
             else Inr body)
      else Inl (JsError (lit ''Invalid frame data at index '' @ show_nat index)))"

text \<open>
  \<open>Promise.all(frames.map(processFrame))\<close> (lines 86-89). Every frame is processed; a
  frame that succeeds writes its file. When no frame fails, the route goes on with all
  the files written. When a frame fails, \<open>Promise.all\<close> rejects at the first failure in
  time, while the other frames go on; the model follows the schedule in which all of
  them settle before the route handles the rejection, and takes the error of the failed
  frame with the least index. It returns the file system with every written file, the
  written files in request order, and that error, if any. Under another schedule a frame
  file written after the cleanup has listed the directory stays on disk.
\<close>

fun processFrames ::
  "server_env \<Rightarrow> path \<Rightarrow> nat \<Rightarrow> frame_data list \<Rightarrow> filesystem \<Rightarrow>
   filesystem \<times> (jsstring \<times> bytes) list \<times> js_error option" where
  "processFrames env tempDir index [] fs = (fs, [], None)"
| "processFrames env tempDir index (frame # frames) fs =
     (case frameBuffer env frame index of
        Inl err \<Rightarrow>
          (let (fs', written, failure) = processFrames env tempDir (Suc index) frames fs
           in (fs', written, Some err))
      | Inr buffer \<Rightarrow>
          (case writeFile fs (join tempDir (frameFilename index)) buffer of
             Inl err \<Rightarrow>
               (let (fs', written, failure) = processFrames env tempDir (Suc index) frames fs
                in (fs', written, Some err))
           | Inr fs1 \<Rightarrow>
               (let (fs', written, failure) = processFrames env tempDir (Suc index) frames fs1
                in (fs', (frameFilename index, buffer) # written, failure))))"

text \<open>
  The cleanup of the success path (lines 112-143): every frame file and the video file
  are unlinked, each with its own \<open>catch\<close>; then the directory is unlinked, and an error
  of that call is caught by the enclosing \<open>try\<close>.
\<close>

definition success_cleanup :: "path \<Rightarrow> path list \<Rightarrow> path \<Rightarrow> filesystem \<Rightarrow> filesystem" where
  "success_cleanup tempDir framePaths tempVideoPath fs =
     (let fs1 = foldl unlink_catch fs framePaths;
          fs2 = unlink_catch fs1 tempVideoPath
      in unlink_catch fs2 tempDir)"

text \<open>
  The cleanup of the error path (lines 164-203): the video file if its path was set,
  every entry the directory lists, then the directory itself, all with \<open>unlink\<close>.
\<close>

definition error_cleanup :: "path \<Rightarrow> path option \<Rightarrow> filesystem \<Rightarrow> filesystem" where
  "error_cleanup tempDir tempVideoPath fs =
     (let fs1 = (case tempVideoPath of None \<Rightarrow> fs | Some p \<Rightarrow> unlink_catch fs p);
          files = (if existsSync fs tempDir then readdirSync fs tempDir else []);
          fs2 = foldl (\<lambda>f name. unlink_catch f (join tempDir name)) fs1 files
      in if existsSync fs2 tempDir then unlink_catch fs2 tempDir else fs2)"

text \<open>
  The route. \<open>frames\<close> is \<open>None\<close> when the body has no array of frames. The result is
  the response and the file system the call leaves behind.
\<close>

definition reassemble_POST ::
  "server_env \<Rightarrow> frame_data list option \<Rightarrow> nat \<Rightarrow> jsstring \<Rightarrow> filesystem \<Rightarrow>
   reassemble_response \<times> filesystem" where
  "reassemble_POST env frames fps outputFormat fs =
     (if frames = None \<or> frames = Some []
      then (ReassembleError 400 (lit ''No frames provided'') None, fs)
      else
        (let tempDir = join (env_tmpdir env) (lit ''video_reassemble_'' @ env_sessionId env);
             fs1 = (if \<not> existsSync fs tempDir then mkdir_recursive fs tempDir else fs);
             (fs2, written, failure) = processFrames env tempDir 0 (the frames) fs1
         in case failure of
              Some err \<Rightarrow>
                (ReassembleError 500 (lit ''Failed to reassemble video'')
                   (Some (error_message err)),
                 error_cleanup tempDir None fs2)
            | None \<Rightarrow>
                (let framePaths = map (\<lambda>(name, buffer). join tempDir name) written;
                     outputFilename = lit ''output_'' @ env_sessionId env @ lit ''.'' @ outputFormat;
                     tempVideoPath = join tempDir outputFilename
                 in case env_ffmpeg env written fps of
                      FfmpegThrows err partial \<Rightarrow>
                        (let fs3 = (case partial of
                                      None \<Rightarrow> fs2
                                    | Some content \<Rightarrow>
                                        (case writeFile fs2 tempVideoPath content of
                                           Inl e \<Rightarrow> fs2 | Inr f \<Rightarrow> f))
                         in (ReassembleError 500 (lit ''Failed to reassemble video'')
                               (Some (error_message err)),
                             error_cleanup tempDir (Some tempVideoPath) fs3))
                    | FfmpegOk video \<Rightarrow>
                        (case writeFile fs2 tempVideoPath video of
                           Inl err \<Rightarrow>
                             (ReassembleError 500 (lit ''Failed to reassemble video'')
                                (Some (error_message err)),
                              error_cleanup tempDir (Some tempVideoPath) fs2)
                         | Inr fs3 \<Rightarrow>
                             (case readFile fs3 tempVideoPath of
                                Inl err \<Rightarrow>
                                  (ReassembleError 500 (lit ''Failed to reassemble video'')
                                     (Some (error_message err)),
                                   error_cleanup tempDir (Some tempVideoPath) fs3)
                              | Inr videoBuffer \<Rightarrow>
                                  (ReassembleOk videoBuffer (length videoBuffer),
                                   success_cleanup tempDir framePaths tempVideoPath fs3))))))"

text \<open>
  \<open>VideoProcessor.reassembleVideo\<close> (video-processor.ts, lines 58-95): the frames it is
  given carry an index, which the request body does not contain. A response that is not
  ok is thrown as an error with the route's \<open>error\<close> text.
\<close>

record reassembly_frame =
  rf_index :: nat
  rf_base64 :: "jsstring option"
  rf_url :: "jsstring option"

definition reassembleVideo ::
  "server_env \<Rightarrow> filesystem \<Rightarrow> reassembly_frame list \<Rightarrow> nat \<Rightarrow> jsstring \<Rightarrow> js_error + bytes" where
  "reassembleVideo env fs frames fps outputFormat =
     (case fst (reassemble_POST env
                  (Some (map (\<lambda>frame. \<lparr>fd_base64 = rf_base64 frame, fd_url = rf_url frame\<rparr>) frames))
                  fps outputFormat fs) of
        ReassembleError status error details \<Rightarrow> Inl (JsError error)
      | ReassembleOk video n \<Rightarrow> Inr video)"

section \<open>The orchestrator: \<open>VideoEditor.tsx\<close>\<close>

subsection \<open>State of the component\<close>

text \<open>
  The React state the handlers read and write (fields with the prefix \<open>ui_\<close>). The
  object URL of the edited video is identified with the video it refers to.
\<close>

datatype ProcessingStep = Setup | Extracting | PreviewFrames | Editing | Reassembling | Complete

record ui_state =
  ui_currentStep :: ProcessingStep
  ui_prompt :: jsstring
  ui_isProcessing :: bool
  ui_progress :: "EditProgress option"
  ui_error :: "jsstring option"
  ui_extractedFrames :: "ExtractedFrame list"
  ui_editedFrames :: "EditedFrame list"
  ui_currentEditingFrame :: int
  ui_detailedDiff :: jsstring
  ui_firstFrameEdited :: jsstring
  ui_editedVideoUrl :: "bytes option"

subsection \<open>Calls to the outside and what comes back\<close>

text \<open>
  The calls a session makes, in the order it makes them, with the moments they settle:
  \<open>EditFrameCall index prompt imageUrls\<close> and \<open>EditFrameSettled index fulfilled\<close> for
  \<open>/api/edit-frame\<close>, \<open>AnalyzeDiffCall\<close> and \<open>AnalyzeDiffSettled\<close> for
  \<open>/api/analyze-diff\<close>, \<open>ValidateUrls\<close> for the \<open>HEAD\<close> requests on the first three
  frames (their answers are only logged), \<open>ReassembleCall manual frames\<close> and
  \<open>ReassembleSettled\<close> for \<open>reassembleVideo\<close>, \<open>Wait ms\<close> for the timer between two
  attempts, and \<open>OnComplete\<close> for the callback of the parent component.
\<close>

datatype call =
    EditFrameCall nat jsstring "jsstring list"
  | EditFrameSettled nat bool
  | AnalyzeDiffCall jsstring jsstring jsstring
  | AnalyzeDiffSettled bool
  | ValidateUrls "jsstring option list"
  | ReassembleCall bool "reassembly_frame list"
  | ReassembleSettled bool
  | Wait nat
  | OnComplete bytes

text \<open>
  What the outside answers. The analysis call throws or gives a response
  \<open>DiffApiResponse ok statusText detailedDiff\<close>. After the fan-out is dispatched the
  session is driven by events: an edit call settles, or the user clicks a control.
  \<open>w_reassembleVideo k\<close> is the outcome of the \<open>k\<close>-th automatic attempt and
  \<open>w_manualAssemble\<close> that of a manual assembly.
\<close>

datatype diff_api_result =
    DiffApiThrows js_error
  | DiffApiResponse bool jsstring jsstring

datatype user_action = GoToStep ProcessingStep | ManualAssemble

datatype event = Settle nat edit_api_result | Click user_action

record world =
  w_firstFrame :: edit_api_result
  w_analyzeDiff :: diff_api_result
  w_events :: "event list"
  w_reassembleVideo :: "nat \<Rightarrow> reassembly_frame list \<Rightarrow> js_error + bytes"
  w_manualAssemble :: "reassembly_frame list \<Rightarrow> js_error + bytes"

text \<open>
  A running session: the React state, the calls made so far, and the variables of the
  closure of \<open>handleProcessFrames\<close> that outlive its \<open>await\<close>s: \<open>allEditedFrames\<close>,
  \<open>completedFrames\<close>, the dispatched edit calls that have not settled, and the state of
  \<open>Promise.all(parallelPromises)\<close>.
\<close>

datatype join_state = NotStarted | Waiting | Resolved | Rejected

record session =
  s_ui :: ui_state
  s_trace :: "call list"
  s_allEditedFrames :: "EditedFrame list"
  s_completedFrames :: nat
  s_pending :: "nat list"
  s_join :: join_state

subsection \<open>\<open>handleProcessFrames\<close>\<close>

definition firstFramePrompt :: "jsstring \<Rightarrow> jsstring" where
  "firstFramePrompt prompt =
     lit ''Edit this video frame:\<newline>\<newline>\"'' @ prompt
     @ lit ''\"\<newline>\<newline>This is the first frame - apply the requested change clearly and distinctly.''"

text \<open>
  Reading the answer of an edit call: lines 239-244 for the first frame, lines 109-123
  (\<open>processFrameWithDiff\<close>) for the others. \<open>Inl\<close> is the error thrown.
\<close>

definition firstFrameEditedUrl :: "edit_api_result \<Rightarrow> js_error + jsstring" where
  "firstFrameEditedUrl response =
     (case response of
        EditApiThrows err \<Rightarrow> Inl err
      | EditApiResponse ok st urls \<Rightarrow>
          if \<not> ok then Inl (JsError (lit ''First frame editing failed: '' @ st))
          else first_image_url urls)"

definition processFrameWithDiff ::
  "ExtractedFrame \<Rightarrow> nat \<Rightarrow> edit_api_result \<Rightarrow> js_error + EditedFrame" where
  "processFrameWithDiff frame frameIndex response =
     (case response of
        EditApiThrows err \<Rightarrow> Inl err
      | EditApiResponse ok st urls \<Rightarrow>
          if \<not> ok
          then Inl (JsError (lit ''Frame '' @ show_nat (frameIndex + 1)
                             @ lit '' processing failed: '' @ st))
          else
            (case first_image_url urls of
               Inl err \<Rightarrow> Inl err
             | Inr editedUrl \<Rightarrow>
                 Inr \<lparr>ef_index = frameIndex, ef_originalUrl = Some (xf_base64 frame),
                      ef_editedUrl = Some editedUrl, ef_editedBlob = None\<rparr>))"

definition detailedDiffSpec :: "diff_api_result \<Rightarrow> js_error + jsstring" where
  "detailedDiffSpec response =
     (case response of
        DiffApiThrows err \<Rightarrow> Inl err
      | DiffApiResponse ok st diff \<Rightarrow>
          if \<not> ok then Inl (JsError (lit ''Diff analysis failed: '' @ st))
          else Inr diff)"

text \<open>The \<open>catch\<close> block (lines 448-458) and the \<open>finally\<close> block (lines 459-463).\<close>

definition catch_block :: "js_error \<Rightarrow> ui_state \<Rightarrow> ui_state" where
  "catch_block err ui =
     ui\<lparr>ui_error := Some (error_message err), ui_currentStep := PreviewFrames\<rparr>"

definition finally_block :: "ui_state \<Rightarrow> ui_state" where
  "finally_block ui = ui\<lparr>ui_isProcessing := False, ui_currentEditingFrame := - 1\<rparr>"

text \<open>
  The retry loop (lines 389-426). It is left by \<open>break\<close> with the video, or by the
  \<open>return\<close> of the last failed attempt, which puts the component back into the editing
  step; the third exit, the loop condition turning false, leaves \<open>editedVideo\<close>
  undefined.
\<close>

definition maxRetries :: nat where
  "maxRetries = 2"

datatype loop_exit = Break bytes | Return | Exhausted

function reassembly_loop ::
  "world \<Rightarrow> nat \<Rightarrow> reassembly_frame list \<Rightarrow> nat \<Rightarrow> session \<Rightarrow> loop_exit \<times> session" where
  "reassembly_loop w n frames reassemblyAttempt s =
     (if reassemblyAttempt \<le> maxRetries
      then
        (let s1 = s\<lparr>s_trace := s_trace s @ [ReassembleCall False frames]\<rparr>
         in case w_reassembleVideo w reassemblyAttempt frames of
              Inr editedVideo \<Rightarrow>
                (Break editedVideo, s1\<lparr>s_trace := s_trace s1 @ [ReassembleSettled True]\<rparr>)
            | Inl err \<Rightarrow>
                (let s2 = s1\<lparr>s_trace := s_trace s1 @ [ReassembleSettled False]\<rparr>
                 in if reassemblyAttempt = maxRetries
                    then (Return,
                          s2\<lparr>s_ui := (s_ui s2)
                               \<lparr>ui_progress := Some
                                   \<lparr>ep_current = n + 2, ep_total = n + 2,
                                    ep_currentFrame = None, ep_status = lit ''processing'',
                                    ep_message = Some (lit
                                      ''Automatic assembly failed. Please use manual assembly button.'')\<rparr>,
                                ui_currentStep := Editing,
                                ui_isProcessing := False\<rparr>\<rparr>)
                    else reassembly_loop w n frames (reassemblyAttempt + 1)
                           (s2\<lparr>s_trace := s_trace s2 @ [Wait 1000]\<rparr>)))
      else (Exhausted, s))"
  by pat_completeness auto
termination
  by (relation "measure (\<lambda>(w, n, frames, reassemblyAttempt, s). Suc maxRetries - reassemblyAttempt)")
     auto

declare reassembly_loop.simps [simp del]

text \<open>
  Lines 353-446: what follows the fan-out. The frames handed to reassembly are those of
  the local array \<open>allEditedFrames\<close>, in the order of that array.
\<close>

definition editedFramesForReassembly :: "EditedFrame list \<Rightarrow> reassembly_frame list" where
  "editedFramesForReassembly editedFrames =
     map (\<lambda>frame. \<lparr>rf_index = ef_index frame, rf_base64 = None, rf_url = ef_editedUrl frame\<rparr>)
       editedFrames"

definition after_fanout :: "world \<Rightarrow> nat \<Rightarrow> session \<Rightarrow> session" where
  "after_fanout w n s =
     (let s1 = s\<lparr>s_ui := (s_ui s)\<lparr>ui_currentStep := Reassembling\<rparr>\<rparr>;
          frames = editedFramesForReassembly (s_allEditedFrames s1);
          s2 = s1\<lparr>s_trace := s_trace s1 @ [ValidateUrls (map rf_url (take 3 frames))]\<rparr>
      in case reassembly_loop w n frames 1 s2 of
           (Break editedVideo, s3) \<Rightarrow>
             s3\<lparr>s_ui := finally_block
                    ((s_ui s3)\<lparr>ui_editedVideoUrl := Some editedVideo, ui_currentStep := Complete\<rparr>),
                s_trace := s_trace s3 @ [OnComplete editedVideo]\<rparr>
         | (Return, s3) \<Rightarrow> s3\<lparr>s_ui := finally_block (s_ui s3)\<rparr>
         | (Exhausted, s3) \<Rightarrow>
             s3\<lparr>s_ui := finally_block
                    (catch_block
                       (JsTypeError (lit ''Cannot read properties of undefined (reading ''
                                     @ [39] @ lit ''size'' @ [39] @ lit '')''))
                       (s_ui s3))\<rparr>)"

text \<open>
  One dispatched edit call settles (\<open>processFrameWithStreaming\<close>, lines 305-329, and
  the \<open>await Promise.all\<close> of line 340). A fulfilled call pushes its frame and updates the
  React state (\<open>pushed\<close>, lines 308-323), whatever has happened to the batch meanwhile;
  the last one to be fulfilled, when none was rejected, resolves \<open>Promise.all\<close>
  (\<open>resolved\<close>, lines 342-350) and the function goes on to the reassembly. The first
  rejected call rejects \<open>Promise.all\<close>: the \<open>catch\<close> and \<open>finally\<close> blocks run, while
  the other calls stay in flight. \<open>frames\<close> is the \<open>extractedFrames\<close> of the closure and
  \<open>n\<close> its length.
\<close>

definition pushed :: "nat \<Rightarrow> nat \<Rightarrow> EditedFrame \<Rightarrow> session \<Rightarrow> session" where
  "pushed n frameIndex result s =
     s\<lparr>s_pending := removeAll frameIndex (s_pending s),
       s_completedFrames := s_completedFrames s + 1,
       s_allEditedFrames := s_allEditedFrames s @ [result],
       s_ui := (s_ui s)
         \<lparr>ui_editedFrames := s_allEditedFrames s @ [result],
          ui_progress := Some
            \<lparr>ep_current = 2 + (s_completedFrames s + 1), ep_total = n + 2,
             ep_currentFrame = Some frameIndex,
             ep_status = lit ''processing'',
             ep_message = Some
               (lit ''Processing frame '' @ show_nat (frameIndex + 1)
                @ lit ''/'' @ show_nat n @ lit '' (''
                @ show_nat (s_completedFrames s + 1) @ lit ''/''
                @ show_nat (n - 1)
                @ lit '' parallel frames complete)'')\<rparr>\<rparr>,
       s_trace := s_trace s @ [EditFrameSettled frameIndex True]\<rparr>"

definition resolved :: "nat \<Rightarrow> session \<Rightarrow> session" where
  "resolved n s =
     s\<lparr>s_join := Resolved,
       s_ui := (s_ui s)
         \<lparr>ui_progress := Some
            \<lparr>ep_current = n + 2, ep_total = n + 2,
             ep_currentFrame = None, ep_status = lit ''processing'',
             ep_message = Some (lit
               ''All frames processed! Preparing for video assembly...'')\<rparr>\<rparr>\<rparr>"

definition settle ::
  "world \<Rightarrow> ExtractedFrame list \<Rightarrow> nat \<Rightarrow> edit_api_result \<Rightarrow> session \<Rightarrow> session" where
  "settle w frames frameIndex response s =
     (if frameIndex \<notin> set (s_pending s) then s
      else
        (let n = length frames
         in case processFrameWithDiff (frames ! frameIndex) frameIndex response of
              Inr result \<Rightarrow>
                (let s1 = pushed n frameIndex result s
                 in if s_join s1 = Waiting \<and> s_pending s1 = []
                    then after_fanout w n (resolved n s1)
                    else s1)
            | Inl err \<Rightarrow>
                (let s1 = s\<lparr>s_pending := removeAll frameIndex (s_pending s),
                            s_trace := s_trace s @ [EditFrameSettled frameIndex False]\<rparr>
                 in if s_join s1 = Waiting
                    then s1\<lparr>s_join := Rejected,
                            s_ui := finally_block (catch_block err (s_ui s1))\<rparr>
                    else s1)))"

subsection \<open>The controls\<close>

text \<open>
  \<open>handleGoToStep\<close> (lines 488-510), and when a click reaches it: through the step
  indicators (lines 588-622) and through the buttons of the preview and editing views.
\<close>

definition handleGoToStep :: "ProcessingStep \<Rightarrow> ui_state \<Rightarrow> ui_state" where
  "handleGoToStep step ui =
     (let ui1 = ui\<lparr>ui_currentStep := step, ui_error := None, ui_isProcessing := False,
                   ui_currentEditingFrame := - 1\<rparr>
      in if step = Setup
         then ui1\<lparr>ui_extractedFrames := [], ui_editedFrames := [], ui_editedVideoUrl := None,
                  ui_detailedDiff := [], ui_firstFrameEdited := []\<rparr>
         else if step = PreviewFrames
         then ui1\<lparr>ui_editedFrames := [], ui_editedVideoUrl := None,
                  ui_detailedDiff := [], ui_firstFrameEdited := []\<rparr>
         else if step = Editing
         then ui1\<lparr>ui_editedVideoUrl := None\<rparr>
         else ui1)"

fun step_clickable :: "ProcessingStep \<Rightarrow> ui_state \<Rightarrow> bool" where
  "step_clickable Setup ui = True"
| "step_clickable PreviewFrames ui =
     (ui_extractedFrames ui \<noteq> [] \<or> (ui_currentStep ui = Editing \<and> \<not> ui_isProcessing ui))"
| "step_clickable Editing ui = (ui_extractedFrames ui \<noteq> [])"
| "step_clickable Complete ui = (ui_editedVideoUrl ui \<noteq> None)"
| "step_clickable Extracting ui = False"
| "step_clickable Reassembling ui = False"

text \<open>
  The button "Assemble Video Now" is rendered in the editing view only, when nothing is
  processing and there is an edited frame (lines 809, 902 and 922).
\<close>

definition manual_assemble_visible :: "ui_state \<Rightarrow> bool" where
  "manual_assemble_visible ui =
     (ui_currentStep ui = Editing \<and> \<not> ui_isProcessing ui \<and> ui_editedFrames ui \<noteq> [])"

text \<open>\<open>handleManualAssemble\<close> (lines 522-570), on the \<open>editedFrames\<close> of the React state.\<close>

definition handleManualAssemble :: "world \<Rightarrow> session \<Rightarrow> session" where
  "handleManualAssemble w s =
     (if ui_editedFrames (s_ui s) = [] then s
      else
        (let n = length (ui_extractedFrames (s_ui s));
             frames = editedFramesForReassembly (ui_editedFrames (s_ui s));
             ui1 = (s_ui s)\<lparr>ui_currentStep := Reassembling, ui_isProcessing := True\<rparr>
         in case w_manualAssemble w frames of
              Inr editedVideo \<Rightarrow>
                s\<lparr>s_ui := ui1
                     \<lparr>ui_editedVideoUrl := Some editedVideo, ui_currentStep := Complete,
                      ui_progress := Some
                        \<lparr>ep_current = n + 3, ep_total = n + 3, ep_currentFrame = None,
                         ep_status = lit ''complete'',
                         ep_message = Some (lit ''Video editing complete!'')\<rparr>,
                      ui_isProcessing := False\<rparr>,
                  s_trace := s_trace s @ [ReassembleCall True frames, ReassembleSettled True]\<rparr>
            | Inl err \<Rightarrow>
                s\<lparr>s_ui := ui1
                     \<lparr>ui_error := Some (lit ''Manual assembly failed: '' @ error_message err),
                      ui_currentStep := Editing, ui_isProcessing := False\<rparr>,
                  s_trace := s_trace s @ [ReassembleCall True frames, ReassembleSettled False]\<rparr>))"

definition click :: "world \<Rightarrow> user_action \<Rightarrow> session \<Rightarrow> session" where
  "click w action s =
     (case action of
        GoToStep step \<Rightarrow>
          if step_clickable step (s_ui s) then s\<lparr>s_ui := handleGoToStep step (s_ui s)\<rparr> else s
      | ManualAssemble \<Rightarrow>
          if manual_assemble_visible (s_ui s) then handleManualAssemble w s else s)"

subsection \<open>A session\<close>

text \<open>
  A session is one run of \<open>handleProcessFrames\<close>, with the edit calls it dispatched
  and the clicks on the step indicators, on the navigation buttons and on
  "Assemble Video Now". The events are handled one after the other, each handler running
  to its end: an edit call that is not in flight cannot settle, and a click on a control
  that is not rendered does nothing. What starts another run is not an event of the
  session: the buttons "Start AI Editing" and "Retry Editing" (lines 779 and 911) and the
  effect of lines 48-53, which calls \<open>handleProcessFrames\<close> again when the editing step
  is open with no edited frame and nothing processing; nor are \<open>handleReset\<close> and
  \<open>handleExtractFrames\<close>.
\<close>

fun step_event :: "world \<Rightarrow> ExtractedFrame list \<Rightarrow> event \<Rightarrow> session \<Rightarrow> session" where
  "step_event w frames (Settle frameIndex response) s = settle w frames frameIndex response s"
| "step_event w frames (Click action) s = click w action s"

fun run_events :: "world \<Rightarrow> ExtractedFrame list \<Rightarrow> event list \<Rightarrow> session \<Rightarrow> session" where
  "run_events w frames [] s = s"
| "run_events w frames (e # es) s = run_events w frames es (step_event w frames e s)"

text \<open>
  \<open>handleProcessFrames\<close> up to the dispatch of the fan-out (lines 188-340): the check for
  frames, phase 1 (the first frame), phase 2 (the analysis), and phase 3, which
  dispatches one edit call per remaining frame and then waits. With a single frame
  there is no fan-out to wait for and the reassembly follows at once.
\<close>

definition start_pipeline :: "world \<Rightarrow> ui_state \<Rightarrow> session" where
  "start_pipeline w ui =
     (case ui_extractedFrames ui of
        [] \<Rightarrow>
          \<lparr>s_ui = ui\<lparr>ui_error := Some (lit
               ''No frames available to process. Please extract frames first.'')\<rparr>,
           s_trace = [], s_allEditedFrames = [], s_completedFrames = 0, s_pending = [],
           s_join = NotStarted\<rparr>
      | firstFrame # remainingFrames \<Rightarrow>
          (let extractedFrames = ui_extractedFrames ui;
               n = length extractedFrames;
               prompt = ui_prompt ui;
               ui1 = ui\<lparr>ui_isProcessing := True, ui_error := None, ui_currentStep := Editing,
                        ui_editedFrames := [], ui_currentEditingFrame := 0,
                        ui_progress := Some
                          \<lparr>ep_current = 1, ep_total = n + 2, ep_currentFrame = Some 0,
                           ep_status = lit ''processing'',
                           ep_message = Some (lit
                             ''Editing first frame to establish change pattern...'')\<rparr>\<rparr>;
               t1 = [EditFrameCall 0 (firstFramePrompt prompt) [xf_base64 firstFrame]]
           in case firstFrameEditedUrl (w_firstFrame w) of
                Inl err \<Rightarrow>
                  \<lparr>s_ui = finally_block (catch_block err ui1),
                   s_trace = t1 @ [EditFrameSettled 0 False],
                   s_allEditedFrames = [], s_completedFrames = 0, s_pending = [],
                   s_join = NotStarted\<rparr>
              | Inr editedUrl \<Rightarrow>
                  (let firstEditedFrame =
                         \<lparr>ef_index = 0, ef_originalUrl = Some (xf_base64 firstFrame),
                          ef_editedUrl = Some editedUrl, ef_editedBlob = None\<rparr>;
                       ui2 = ui1\<lparr>ui_firstFrameEdited := editedUrl,
                                 ui_editedFrames := [firstEditedFrame],
                                 ui_progress := Some
                                   \<lparr>ep_current = 2, ep_total = n + 2,
                                    ep_currentFrame = Some 0, ep_status = lit ''processing'',
                                    ep_message = Some (lit
                                      ''Analyzing changes to create detailed specification...'')\<rparr>\<rparr>;
                       t2 = t1 @ [EditFrameSettled 0 True,
                                  AnalyzeDiffCall prompt (xf_base64 firstFrame) editedUrl]
                   in case detailedDiffSpec (w_analyzeDiff w) of
                        Inl err \<Rightarrow>
                          \<lparr>s_ui = finally_block (catch_block err ui2),
                           s_trace = t2 @ [AnalyzeDiffSettled False],
                           s_allEditedFrames = [], s_completedFrames = 0, s_pending = [],
                           s_join = NotStarted\<rparr>
                      | Inr spec \<Rightarrow>
                          (let ui3 = ui2\<lparr>ui_detailedDiff := spec\<rparr>;
                               t3 = t2 @ [AnalyzeDiffSettled True]
                           in if n > 1
                              then
                                \<lparr>s_ui = ui3,
                                 s_trace = t3 @ map (\<lambda>i. EditFrameCall i
                                                      (diffBasedPrompt spec prompt)
                                                      [xf_base64 (extractedFrames ! i)])
                                                [1..<n],
                                 s_allEditedFrames = [firstEditedFrame],
                                 s_completedFrames = 0,
                                 s_pending = [1..<n],
                                 s_join = Waiting\<rparr>
                              else
                                after_fanout w n
                                  \<lparr>s_ui = ui3, s_trace = t3,
                                   s_allEditedFrames = [firstEditedFrame],
                                   s_completedFrames = 0, s_pending = [],
                                   s_join = Resolved\<rparr>))))"

definition handleProcessFrames :: "world \<Rightarrow> ui_state \<Rightarrow> session" where
  "handleProcessFrames w ui =
     run_events w (ui_extractedFrames ui) (w_events w) (start_pipeline w ui)"

section \<open>Reading the calls of a session\<close>

text \<open>
  \<open>precedes P Q calls\<close>: every call that satisfies \<open>Q\<close> comes after some call that
  satisfies \<open>P\<close>.
\<close>

fun precedes :: "('a \<Rightarrow> bool) \<Rightarrow> ('a \<Rightarrow> bool) \<Rightarrow> 'a list \<Rightarrow> bool" where
  "precedes P Q [] = True"
| "precedes P Q (c # cs) = (\<not> Q c \<and> (P c \<or> precedes P Q cs))"

fun is_edit_call_of :: "nat \<Rightarrow> call \<Rightarrow> bool" where
  "is_edit_call_of i (EditFrameCall j p us) = (i = j)"
| "is_edit_call_of i c = False"

fun is_fanout_call :: "call \<Rightarrow> bool" where
  "is_fanout_call (EditFrameCall j p us) = (1 \<le> j)"
| "is_fanout_call c = False"

fun is_settled_of :: "nat \<Rightarrow> call \<Rightarrow> bool" where
  "is_settled_of i (EditFrameSettled j ok) = (i = j)"
| "is_settled_of i c = False"

fun is_analyze_call :: "call \<Rightarrow> bool" where
  "is_analyze_call (AnalyzeDiffCall p f u) = True"
| "is_analyze_call c = False"

fun is_reassemble :: "call \<Rightarrow> bool" where
  "is_reassemble (ReassembleCall manual frames) = True"
| "is_reassemble c = False"

fun is_automatic_reassemble :: "call \<Rightarrow> bool" where
  "is_automatic_reassemble (ReassembleCall manual frames) = (\<not> manual)"
| "is_automatic_reassemble c = False"

fun is_click :: "event \<Rightarrow> bool" where
  "is_click (Click action) = True"
| "is_click (Settle i response) = False"

text \<open>
  The edit call of frame \<open>i\<close> was dispatched; and: it was dispatched and no reassembly
  began before it settled.
\<close>

definition dispatched :: "nat \<Rightarrow> call list \<Rightarrow> bool" where
  "dispatched i calls = list_ex (is_edit_call_of i) calls"

definition settled_before_reassembly :: "nat \<Rightarrow> call list \<Rightarrow> bool" where
  "settled_before_reassembly i calls = precedes (is_settled_of i) is_reassemble calls"

definition fulfilled_before_automatic_reassembly :: "nat \<Rightarrow> call list \<Rightarrow> bool" where
  "fulfilled_before_automatic_reassembly i calls =
     precedes (\<lambda>c. c = EditFrameSettled i True) is_automatic_reassemble calls"

section \<open>Invariants of a session\<close>

text \<open>
  The calls of the reassembly phase for the frames \<open>fs\<close>: the URL checks, the automatic
  attempts on exactly these frames, the wait of one second, and the completion callback.
\<close>

fun reassembly_phase_call :: "reassembly_frame list \<Rightarrow> call \<Rightarrow> bool" where
  "reassembly_phase_call fs (ValidateUrls us) = True"
| "reassembly_phase_call fs (ReassembleCall manual fs') = (\<not> manual \<and> fs' = fs)"
| "reassembly_phase_call fs (ReassembleSettled ok) = True"
| "reassembly_phase_call fs (Wait ms) = (ms = 1000)"
| "reassembly_phase_call fs (OnComplete v) = True"
| "reassembly_phase_call fs c = False"

text \<open>
  For a session on \<open>n\<close> extracted frames: the indices pushed so far and the indices in
  flight are distinct, disjoint and below \<open>n\<close>; so are the indices of the React state;
  while \<open>Promise.all\<close> is waiting, no automatic reassembly has begun, every index is
  pushed or in flight, and every call that is not in flight was fulfilled; and every
  automatic reassembly call came after the fulfilment of every frame, on a list with
  exactly the indices below \<open>n\<close>, at most twice.
\<close>

definition closure_inv :: "nat \<Rightarrow> session \<Rightarrow> bool" where
  "closure_inv n s =
     (distinct (map ef_index (s_allEditedFrames s))
      \<and> distinct (s_pending s)
      \<and> set (s_pending s) \<subseteq> {1..<n}
      \<and> set (map ef_index (s_allEditedFrames s)) \<subseteq> {0..<n}
      \<and> set (map ef_index (s_allEditedFrames s)) \<inter> set (s_pending s) = {})"

definition edited_inv :: "nat \<Rightarrow> session \<Rightarrow> bool" where
  "edited_inv n s =
     (0 < n \<longrightarrow>
        distinct (map ef_index (ui_editedFrames (s_ui s)))
        \<and> set (map ef_index (ui_editedFrames (s_ui s))) \<subseteq> {0..<n})"

definition waiting_inv :: "nat \<Rightarrow> session \<Rightarrow> bool" where
  "waiting_inv n s =
     (s_join s = Waiting \<longrightarrow>
        \<not> list_ex is_automatic_reassemble (s_trace s)
        \<and> set (map ef_index (s_allEditedFrames s)) \<union> set (s_pending s) = {0..<n}
        \<and> (\<forall>i<n. i \<notin> set (s_pending s) \<longrightarrow> EditFrameSettled i True \<in> set (s_trace s)))"

definition trace_inv :: "nat \<Rightarrow> session \<Rightarrow> bool" where
  "trace_inv n s =
     ((\<forall>i<n. fulfilled_before_automatic_reassembly i (s_trace s))
      \<and> length (filter is_automatic_reassemble (s_trace s)) \<le> 2
      \<and> (\<forall>fs. ReassembleCall False fs \<in> set (s_trace s) \<longrightarrow>
             distinct (map rf_index fs) \<and> set (map rf_index fs) = {0..<n}))"

definition session_inv :: "nat \<Rightarrow> session \<Rightarrow> bool" where
  "session_inv n s = (closure_inv n s \<and> edited_inv n s \<and> waiting_inv n s \<and> trace_inv n s)"

text \<open>
  Every frame pushed carries the URL of its edited image. And, as long as the user has
  clicked nothing: the React state holds the frames pushed; while \<open>Promise.all\<close> waits
  there is no error and no reassembly has begun; after it was rejected the component
  shows the preview step with the error, processes nothing, and no reassembly has
  begun; after it was resolved the session is in the state the reassembly phase left.
\<close>

definition urls_inv :: "session \<Rightarrow> bool" where
  "urls_inv s = (\<forall>frame\<in>set (s_allEditedFrames s). ef_editedUrl frame \<noteq> None)"

definition automatic_inv :: "world \<Rightarrow> nat \<Rightarrow> session \<Rightarrow> bool" where
  "automatic_inv w n s =
     ((s_join s \<noteq> NotStarted \<longrightarrow>
         ui_editedFrames (s_ui s) = s_allEditedFrames s \<and> s_allEditedFrames s \<noteq> []
         \<and> ui_extractedFrames (s_ui s) \<noteq> [])
      \<and> (s_join s = Waiting \<longrightarrow>
            ui_error (s_ui s) = None \<and> \<not> list_ex is_reassemble (s_trace s))
      \<and> (s_join s = Rejected \<longrightarrow>
            ui_currentStep (s_ui s) = PreviewFrames \<and> ui_error (s_ui s) \<noteq> None
            \<and> \<not> ui_isProcessing (s_ui s) \<and> \<not> list_ex is_reassemble (s_trace s))
      \<and> (s_join s = Resolved \<longrightarrow>
            (\<exists>s0. s = after_fanout w n s0 \<and> ui_error (s_ui s0) = None
                  \<and> \<not> list_ex is_reassemble (s_trace s0) \<and> s_pending s0 = [])))"

section \<open>Concrete inputs\<close>

text \<open>
  Inputs for the examples below: an environment of the reassembly route in which every
  download and the encoder succeed, extracted frames, the state of the component when
  the editing step is entered with \<open>n\<close> extracted frames, and answers of the edit route.
\<close>

definition example_env :: server_env where
  "example_env =
     \<lparr>env_sessionId = lit ''s1'', env_tmpdir = [lit ''tmp''],
      env_decode_base64 = (\<lambda>s. [1, 2, 3]),
      env_fetch = (\<lambda>u. FetchResponse True (lit ''OK'') [7]),
      env_ffmpeg = (\<lambda>files fps. FfmpegOk [9, 9])\<rparr>"

definition example_fs :: filesystem where
  "example_fs = [([lit ''tmp''], Directory)]"

definition example_frame :: "nat \<Rightarrow> ExtractedFrame" where
  "example_frame i =
     \<lparr>xf_index = i, xf_timestamp = real i, xf_base64 = lit ''data:image/png;base64,'' @ show_nat i,
      xf_filename = lit ''frame_'' @ show_nat i @ lit ''.png'', xf_url = None\<rparr>"

definition example_ui :: "nat \<Rightarrow> ui_state" where
  "example_ui n =
     \<lparr>ui_currentStep = Editing, ui_prompt = lit ''make it look cyberpunk'',
      ui_isProcessing = False, ui_progress = None, ui_error = None,
      ui_extractedFrames = map example_frame [0..<n], ui_editedFrames = [],
      ui_currentEditingFrame = - 1, ui_detailedDiff = [], ui_firstFrameEdited = [],
      ui_editedVideoUrl = None\<rparr>"

definition edit_ok :: "nat \<Rightarrow> edit_api_result" where
  "edit_ok i = EditApiResponse True (lit ''OK'') [lit ''https://cdn/edited-'' @ show_nat i]"

definition edit_failed :: edit_api_result where
  "edit_failed = EditApiResponse False (lit ''Bad Gateway'') []"

definition example_world ::
  "event list \<Rightarrow> (nat \<Rightarrow> reassembly_frame list \<Rightarrow> js_error + bytes) \<Rightarrow> world" where
  "example_world events reassemble =
     \<lparr>w_firstFrame = edit_ok 0,
      w_analyzeDiff = DiffApiResponse True (lit ''OK'') (lit ''neon signs, teal and magenta''),
      w_events = events,
      w_reassembleVideo = reassemble,
      w_manualAssemble = reassemble 0\<rparr>"

section \<open>More invariants\<close>

text \<open>
  Once an automatic reassembly call was made, nothing is in flight and the call was made
  on the frames of \<open>allEditedFrames\<close>; and, unless the run ended before the fan-out,
  the frames pushed are those of the edit calls that were fulfilled.
\<close>

definition handed_inv :: "session \<Rightarrow> bool" where
  "handed_inv s =
     (\<forall>fs. ReassembleCall False fs \<in> set (s_trace s) \<longrightarrow>
         fs = editedFramesForReassembly (s_allEditedFrames s) \<and> s_pending s = [])"

definition fulfilled_inv :: "session \<Rightarrow> bool" where
  "fulfilled_inv s =
     (s_join s \<noteq> NotStarted \<longrightarrow>
        set (map ef_index (s_allEditedFrames s)) = {i. EditFrameSettled i True \<in> set (s_trace s)})"

text \<open>
  The answer to the edit call of frame \<open>i\<close>: for the first frame the answer the run
  awaited, for a frame of the fan-out the answer of its first settle event (a call
  settles once). Every frame pushed with the index \<open>i\<close> carries the first image URL of
  the answer to the edit call of frame \<open>i\<close>, an answer that was ok; \<open>pre\<close> are the
  events handled so far, and a call in flight has no answer among them.
\<close>

fun answer_of :: "event list \<Rightarrow> nat \<Rightarrow> edit_api_result option" where
  "answer_of [] i = None"
| "answer_of (Settle frameIndex response # events) i =
     (if frameIndex = i then Some response else answer_of events i)"
| "answer_of (Click action # events) i = answer_of events i"

definition edit_answer :: "world \<Rightarrow> nat \<Rightarrow> edit_api_result option" where
  "edit_answer w i = (if i = 0 then Some (w_firstFrame w) else answer_of (w_events w) i)"

definition answers_inv :: "world \<Rightarrow> event list \<Rightarrow> session \<Rightarrow> bool" where
  "answers_inv w pre s =
     (0 \<notin> set (s_pending s)
      \<and> (\<forall>i\<in>set (s_pending s). answer_of pre i = None)
      \<and> (\<forall>frame\<in>set (s_allEditedFrames s). \<exists>st u us.
            (if ef_index frame = 0 then Some (w_firstFrame w)
             else answer_of pre (ef_index frame))
              = Some (EditApiResponse True st (u # us))
            \<and> ef_editedUrl frame = Some u))"

text \<open>
  What the examples read off a session: the state of \<open>Promise.all\<close>, the step shown,
  whether the component is processing, whether an error is shown, the indices of the
  edited frames of the React state, whether the manual assembly button is rendered, and
  the number of automatic reassembly attempts.
\<close>

definition session_summary ::
  "session \<Rightarrow> join_state \<times> ProcessingStep \<times> bool \<times> bool \<times> nat list \<times> bool \<times> nat" where
  "session_summary s =
     (s_join s, ui_currentStep (s_ui s), ui_isProcessing (s_ui s), ui_error (s_ui s) \<noteq> None,
      map ef_index (ui_editedFrames (s_ui s)), manual_assemble_visible (s_ui s),
      length (filter is_automatic_reassemble (s_trace s)))"

section \<open>Properties\<close>

lemma length_lit [simp]: "length (lit s) = length s"
  by (simp add: lit_def)

lemma substring_from_0: "substring s 0 b = take (nat b) s"
  by (auto simp: substring_def Let_def min_def max_def)

lemma length_enforce_diff_limit: "length (enforce_diff_limit t) \<le> 5000"
  by (simp add: enforce_diff_limit_def substring_from_0)

lemma enforce_diff_limit_cut:
  "enforce_diff_limit t = (if length t \<le> 5000 then t else take 4997 t @ lit ''...'')"
  by (simp add: enforce_diff_limit_def substring_from_0)

text \<open>
  C7. Whenever the analyzer answers with a diff specification, that specification is the
  text the model returned for the request if it has at most 5000 code units, and
  otherwise the first 4997 code units of that text followed by three dots: in both cases
  it has at most 5000 code units, and \<open>diffLength\<close> reports its length.
\<close>

theorem analyze_diff_at_most_5000:
  assumes "analyze_diff_POST key fetch generateContent req = AnalyzeDiffOk d p n"
  shows "\<exists>st body t.
           fetch (the (req_editedFrameUrl req)) = FetchResponse True st body
           \<and> generateContent (the (req_originalPrompt req))
                (the (req_originalFrameBase64 req)) body = GeminiText t
           \<and> d = (if length t \<le> 5000 then t else take 4997 t @ lit ''...'')
           \<and> length d \<le> 5000
           \<and> n = length d
           \<and> p = the (req_originalPrompt req)"
proof -
  from assms obtain st body where
    f: "fetch (the (req_editedFrameUrl req)) = FetchResponse True st body"
    by (auto simp: analyze_diff_POST_def Let_def
          split: if_splits fetch_result.splits gemini_result.splits)
  with assms obtain t where
    g: "generateContent (the (req_originalPrompt req))
          (the (req_originalFrameBase64 req)) body = GeminiText t"
    by (auto simp: analyze_diff_POST_def Let_def
          split: if_splits fetch_result.splits gemini_result.splits)
  from assms f g have r: "d = enforce_diff_limit t" "n = length d"
      "p = the (req_originalPrompt req)"
    by (auto simp: analyze_diff_POST_def Let_def split: if_splits)
  from r(1) have "length d \<le> 5000"
    by (simp add: length_enforce_diff_limit)
  with f g r enforce_diff_limit_cut [of t] show ?thesis
    by simp
qed

lemma lit_Nil: "lit s = [] \<longleftrightarrow> s = []"
  by (simp add: lit_def)

lemma example_model_text_cut:
  "take 4997 (lit ''The sky: '' @ replicate 5990 (65::16 word) @ lit '' is orange now.'')
   = lit ''The sky: '' @ replicate 4988 65"
  by (simp add: take_all)

theorem analyze_diff_at_most_5000_witness:
  "analyze_diff_POST (Some (lit ''k'')) (\<lambda>u. FetchResponse True [] [])
      (\<lambda>p f b. GeminiText (lit ''The sky: '' @ replicate 5990 65 @ lit '' is orange now.''))
      \<lparr>req_originalPrompt = Some (lit ''add sunglasses''),
       req_originalFrameBase64 = Some (lit ''data:image/png;base64,AA''),
       req_editedFrameUrl = Some (lit ''https://x/y.png'')\<rparr>
   = AnalyzeDiffOk (lit ''The sky: '' @ replicate 4988 65 @ lit ''...'')
       (lit ''add sunglasses'') 5000
   \<and> lit ''The sky: '' @ replicate 4988 65 @ lit ''...''
       = take 4997 (lit ''The sky: '' @ replicate 5990 65 @ lit '' is orange now.'')
         @ lit ''...''
   \<and> length (lit ''The sky: '' @ replicate 4988 (65::16 word) @ lit ''...'') \<le> 5000"
proof -
  let ?t = "lit ''The sky: '' @ replicate 5990 (65::16 word) @ lit '' is orange now.''"
  let ?d = "lit ''The sky: '' @ replicate 4988 (65::16 word) @ lit ''...''"
  let ?req = "\<lparr>req_originalPrompt = Some (lit ''add sunglasses''),
       req_originalFrameBase64 = Some (lit ''data:image/png;base64,AA''),
       req_editedFrameUrl = Some (lit ''https://x/y.png'')\<rparr>"
  have long: "\<not> length ?t \<le> 5000"
    by simp
  have e: "analyze_diff_POST (Some (lit ''k'')) (\<lambda>u. FetchResponse True [] [])
      (\<lambda>p f b. GeminiText ?t) ?req = AnalyzeDiffOk ?d (lit ''add sunglasses'') 5000"
    by (simp add: analyze_diff_POST_def truthy_def enforce_diff_limit_cut
          example_model_text_cut lit_Nil del: take_append)
  from analyze_diff_at_most_5000 [OF e] obtain t where
    g: "GeminiText ?t = GeminiText t"
    and d: "?d = (if length t \<le> 5000 then t else take 4997 t @ lit ''...'')"
    and l: "length ?d \<le> 5000"
    by blast
  from g have t: "t = ?t"
    by (simp only: gemini_result.inject)
  from d long have "?d = take 4997 ?t @ lit ''...''"
    unfolding t by (simp only: if_False)
  with e l show ?thesis
    by (simp only: simp_thms)
qed

lemma length_truncatedDiff:
  "length (truncatedDiff d p) \<le> (1500 - length p) + 15"
  by (auto simp: truncatedDiff_def Let_def substring_from_0)

lemma length_diffBasedPrompt:
  "length (diffBasedPrompt d p) = 95 + length p + length (truncatedDiff d p)"
  by (simp add: diffBasedPrompt_def)

lemma truncatedDiff_long_prompt:
  "1500 < length p \<Longrightarrow> truncatedDiff d p = lit ''... [truncated]''"
  by (auto simp: truncatedDiff_def Let_def substring_from_0)

lemma length_firstFramePrompt:
  "length (firstFramePrompt p) = 104 + length p"
  by (simp add: firstFramePrompt_def)

lemma firstFramePrompt_too_long:
  "prompt_too_long (firstFramePrompt p) \<longleftrightarrow> 1896 < length p"
  by (auto simp: prompt_too_long_def length_firstFramePrompt)

text \<open>
  Up to 1890 code units of user prompt the edit prompt stays within the limit of the edit
  route, whatever the diff specification; the user's prompt stands in it in full.
\<close>

lemma diffBasedPrompt_within_limit:
  assumes "length p \<le> 1890"
  shows "length (diffBasedPrompt d p) \<le> 2000" and "\<not> prompt_too_long (diffBasedPrompt d p)"
proof -
  show "length (diffBasedPrompt d p) \<le> 2000"
  proof (cases "length p \<le> 1500")
    case True
    with length_truncatedDiff [of d p] show ?thesis
      by (simp add: length_diffBasedPrompt)
  next
    case False
    with assms show ?thesis
      by (simp add: length_diffBasedPrompt truncatedDiff_long_prompt)
  qed
  then show "\<not> prompt_too_long (diffBasedPrompt d p)"
    by (simp add: prompt_too_long_def)
qed

text \<open>
  C2 fails on the code. A user prompt of 1891 to 1896 code units passes the edit route's
  check in the prompt of the first frame, so the run reaches the composition for the
  other frames. There \<open>maxDiffLength\<close> is negative: the whole diff specification is cut
  away and the marker is appended all the same, and the edit prompt has
  \<open>110 + length p\<close> code units, more than 2000, which the edit route refuses. The same
  template with the diff specification cut to \<open>1905 - length p\<close> code units keeps the
  user's prompt in full within 2000.
\<close>

theorem diffBasedPrompt_misses_limit:
  assumes "1890 < length p" and "length p \<le> 1896"
  shows "\<not> prompt_too_long (firstFramePrompt p)
    \<and> truncatedDiff d p = lit ''... [truncated]''
    \<and> diffBasedPrompt d p =
         lit ''Apply this specification: \"'' @ p @ lit ''\"\<newline>\<newline>Details: ''
         @ lit ''... [truncated]''
         @ lit ''\<newline>\<newline>Apply these changes precisely to maintain consistency.''
    \<and> length (diffBasedPrompt d p) = 110 + length p
    \<and> prompt_too_long (diffBasedPrompt d p)
    \<and> \<not> prompt_too_long
          (lit ''Apply this specification: \"'' @ p @ lit ''\"\<newline>\<newline>Details: ''
           @ take (1905 - length p) d
           @ lit ''\<newline>\<newline>Apply these changes precisely to maintain consistency.'')"
proof -
  from assms have first: "\<not> prompt_too_long (firstFramePrompt p)"
    by (simp add: firstFramePrompt_too_long)
  from assms have cut: "truncatedDiff d p = lit ''... [truncated]''"
    by (simp add: truncatedDiff_long_prompt)
  have shape: "diffBasedPrompt d p =
         lit ''Apply this specification: \"'' @ p @ lit ''\"\<newline>\<newline>Details: ''
         @ lit ''... [truncated]''
         @ lit ''\<newline>\<newline>Apply these changes precisely to maintain consistency.''"
    unfolding diffBasedPrompt_def cut ..
  have len: "length (diffBasedPrompt d p) = 110 + length p"
    by (simp add: length_diffBasedPrompt cut)
  from len assms have long: "prompt_too_long (diffBasedPrompt d p)"
    by (simp add: prompt_too_long_def)
  from assms have fits: "\<not> prompt_too_long
          (lit ''Apply this specification: \"'' @ p @ lit ''\"\<newline>\<newline>Details: ''
           @ take (1905 - length p) d
           @ lit ''\<newline>\<newline>Apply these changes precisely to maintain consistency.'')"
    by (simp add: prompt_too_long_def)
  from first cut shape len long fits show ?thesis
    by blast
qed

theorem diffBasedPrompt_misses_limit_witness:
  "\<not> prompt_too_long (firstFramePrompt (replicate 1891 97))
   \<and> length (diffBasedPrompt (lit ''The sky is orange.'') (replicate 1891 97)) = 2001
   \<and> prompt_too_long (diffBasedPrompt (lit ''The sky is orange.'') (replicate 1891 97))
   \<and> truncatedDiff (lit ''The sky is orange.'') (replicate 1891 97) = lit ''... [truncated]''"
proof -
  have a: "1890 < length (replicate 1891 (97::16 word))"
    and b: "length (replicate 1891 (97::16 word)) \<le> 1896"
    by simp_all
  note inst = diffBasedPrompt_misses_limit [OF a b, of "lit ''The sky is orange.''"]
  from inst have first: "\<not> prompt_too_long (firstFramePrompt (replicate 1891 97))"
    and cut: "truncatedDiff (lit ''The sky is orange.'') (replicate 1891 97)
                = lit ''... [truncated]''"
    and len: "length (diffBasedPrompt (lit ''The sky is orange.'') (replicate 1891 97))
                = 110 + length (replicate 1891 (97::16 word))"
    and long: "prompt_too_long (diffBasedPrompt (lit ''The sky is orange.'') (replicate 1891 97))"
    by blast+
  from len have "length (diffBasedPrompt (lit ''The sky is orange.'') (replicate 1891 97)) = 2001"
    by simp
  with first cut long show ?thesis
    by blast
qed

lemma extract_loop_frames:
  "extract_loop grab videoId v interval n i = Inr frames \<Longrightarrow>
   length frames = nat (n - int i) \<and>
   (\<forall>j < length frames. xf_index (frames ! j) = i + j
        \<and> xf_timestamp (frames ! j) = frame_timestamp v interval (i + j))"
proof (induction grab videoId v interval n i arbitrary: frames rule: extract_loop.induct)
  case (1 grab videoId v interval n i)
  show ?case
  proof (cases "int i < n")
    case False
    with "1.prems" show ?thesis by (simp add: extract_loop.simps [of grab videoId v interval n i])
  next
    case True
    with "1.prems" obtain b64 rest where
      g: "grab i (frame_timestamp v interval i) = Inr b64" and
      r: "extract_loop grab videoId v interval n (Suc i) = Inr rest" and
      f: "frames = \<lparr>xf_index = i, xf_timestamp = frame_timestamp v interval i,
                    xf_base64 = lit ''data:image/png;base64,'' @ b64,
                    xf_filename = frame_filename videoId i, xf_url = None\<rparr> # rest"
      by (auto simp: extract_loop.simps [of grab videoId v interval n i] split: sum.splits)
    from "1.IH" [OF True g r]
    have ih: "length rest = nat (n - int (Suc i))"
      "\<forall>j < length rest. xf_index (rest ! j) = Suc i + j
        \<and> xf_timestamp (rest ! j) = frame_timestamp v interval (Suc i + j)"
      by auto
    show ?thesis
    proof (intro conjI allI impI)
      show "length frames = nat (n - int i)" using ih(1) True f by simp
    next
      fix j assume "j < length frames"
      then show "xf_index (frames ! j) = i + j" using ih(2) f by (cases j) auto
    next
      fix j assume "j < length frames"
      then show "xf_timestamp (frames ! j) = frame_timestamp v interval (i + j)"
        using ih(2) f by (cases j) auto
    qed
  qed
qed

lemma frameInfos_loop_infos:
  "length (frameInfos_loop videoId v interval n i) = nat (n - int i) \<and>
   (\<forall>j < nat (n - int i).
        fi_index (frameInfos_loop videoId v interval n i ! j) = i + j
      \<and> fi_timestamp (frameInfos_loop videoId v interval n i ! j) = frame_timestamp v interval (i + j))"
proof (induction videoId v interval n i rule: frameInfos_loop.induct)
  case (1 videoId v interval n i)
  show ?case
  proof (cases "int i < n")
    case False
    then show ?thesis by (simp add: frameInfos_loop.simps [of videoId v interval n i])
  next
    case True
    note ih = "1.IH" [OF True]
    have len: "length (frameInfos_loop videoId v interval n i) = nat (n - int i)"
      using ih True by (simp add: frameInfos_loop.simps [of videoId v interval n i])
    have nth: "fi_index (frameInfos_loop videoId v interval n i ! j) = i + j
      \<and> fi_timestamp (frameInfos_loop videoId v interval n i ! j) = frame_timestamp v interval (i + j)"
      if "j < nat (n - int i)" for j
    proof (cases j)
      case 0
      then show ?thesis using True by (simp add: frameInfos_loop.simps [of videoId v interval n i])
    next
      case (Suc j')
      with that have "j' < nat (n - int (Suc i))" by simp
      with ih Suc True show ?thesis
        by (simp add: frameInfos_loop.simps [of videoId v interval n i])
    qed
    from len nth show ?thesis by blast
  qed
qed

lemma extract_all_frames:
  "extract_all grab infos = Inr frames \<Longrightarrow>
   length frames = length infos \<and>
   (\<forall>j < length infos. xf_index (frames ! j) = fi_index (infos ! j)
        \<and> xf_timestamp (frames ! j) = fi_timestamp (infos ! j))"
proof (induction infos arbitrary: frames)
  case Nil
  then show ?case by simp
next
  case (Cons info infos)
  from Cons.prems obtain b64 rest where
    r: "extract_all grab infos = Inr rest" and
    f: "frames = \<lparr>xf_index = fi_index info, xf_timestamp = fi_timestamp info,
                  xf_base64 = lit ''data:image/png;base64,'' @ b64,
                  xf_filename = fi_filename info, xf_url = None\<rparr> # rest"
    by (auto split: sum.splits)
  from Cons.IH [OF r] have ih: "length rest = length infos"
    "\<forall>j < length infos. xf_index (rest ! j) = fi_index (infos ! j)
        \<and> xf_timestamp (rest ! j) = fi_timestamp (infos ! j)"
    by auto
  have "xf_index (frames ! j) = fi_index ((info # infos) ! j)
        \<and> xf_timestamp (frames ! j) = fi_timestamp ((info # infos) ! j)"
    if "j < length (info # infos)" for j
    using that ih(2) f by (cases j) auto
  with ih(1) f show ?case by simp
qed

lemma plan_frames:
  assumes len: "length frames = nat (framesToExtract v interval maxFrames)"
    and nth: "\<forall>j < length frames. xf_index (frames ! j) = j
          \<and> xf_timestamp (frames ! j) = frame_timestamp v interval j"
    and i1: "1 \<le> interval" and m1: "1 \<le> maxFrames"
    and ok: "0 \<le> vs_duration v \<or> 0 < vs_fps v"
  shows "int (length frames) \<le> maxFrames
     \<and> (\<forall>j < length frames. xf_index (frames ! j) = j
            \<and> xf_timestamp (frames ! j) = real (j * nat interval) / vs_fps v)
     \<and> (\<forall>j k. j < k \<longrightarrow> k < length frames \<longrightarrow>
            xf_timestamp (frames ! j) < xf_timestamp (frames ! k))"
proof -
  have fi: "frameInterval interval = interval"
    using i1 by (simp add: frameInterval_def)
  have count: "int (length frames) \<le> maxFrames"
    using len m1 by (simp add: framesToExtract_def)
  have ts: "frame_timestamp v interval j = real (j * nat interval) / vs_fps v" for j
    using i1 by (simp add: frame_timestamp_def fi)
  have mono: "xf_timestamp (frames ! j) < xf_timestamp (frames ! k)"
    if jk: "j < k" and k: "k < length frames" for j k
  proof -
    from jk k have "2 \<le> length frames" by simp
    with len have "2 \<le> framesToExtract v interval maxFrames" by simp
    then have "2 \<le> \<lfloor>real_of_int (totalFrames v) / real_of_int interval\<rfloor>"
      by (simp add: framesToExtract_def fi)
    then have "2 \<le> real_of_int (totalFrames v) / real_of_int interval"
      by linarith
    with i1 have "0 < real_of_int (totalFrames v)"
      by (smt (verit) divide_nonpos_pos of_int_0_less_iff)
    then have "0 < totalFrames v" by simp
    then have "0 < vs_duration v * vs_fps v"
      unfolding totalFrames_def by linarith
    with ok have fps: "0 < vs_fps v"
      by (metis mult_nonneg_nonpos not_le not_less_iff_gr_or_eq zero_less_mult_pos)
    from jk i1 have lt: "real (j * nat interval) < real (k * nat interval)"
      by simp
    from lt fps have "real (j * nat interval) / vs_fps v < real (k * nat interval) / vs_fps v"
      by (rule divide_strict_right_mono)
    with nth jk k ts i1 show ?thesis by simp
  qed
  from count nth ts mono i1 show ?thesis by simp
qed

text \<open>
  C6. For a sampling policy with \<open>interval \<ge> 1\<close> and \<open>maxFrames \<ge> 1\<close>, both variants
  of the extraction route return at most \<open>maxFrames\<close> frames; frame \<open>j\<close> carries the
  index \<open>j\<close> and the timestamp \<open>j * interval / fps\<close>, and the timestamps grow
  strictly with the index. The probed video has a duration that is not negative or a
  positive frame rate.
\<close>

theorem extraction_count_and_timestamps:
  assumes run: "extract_frames_POST file_present (Some interval) (Some maxFrames) videoId probe grab
                  = ExtractOk frames meta
              \<or> extract_frames_parallel_POST file_present (Some interval) (Some maxFrames) videoId
                  probe grab = ExtractOk frames meta"
    and i1: "1 \<le> interval" and m1: "1 \<le> maxFrames"
    and video: "0 \<le> md_duration meta \<or> 0 < md_fps meta"
  shows "int (length frames) \<le> maxFrames
     \<and> (\<forall>j < length frames. xf_index (frames ! j) = j
            \<and> xf_timestamp (frames ! j) = real (j * nat interval) / md_fps meta)
     \<and> (\<forall>j k. j < k \<longrightarrow> k < length frames \<longrightarrow>
            xf_timestamp (frames ! j) < xf_timestamp (frames ! k))"
proof -
  from run obtain v where
    meta: "meta = \<lparr>md_duration = vs_duration v, md_fps = vs_fps v,
                    md_width = vs_width v, md_height = vs_height v\<rparr>" and
    frames: "extract_loop grab videoId v interval (framesToExtract v interval maxFrames) 0
               = Inr frames
           \<or> extract_all grab
                 (frameInfos_loop videoId v interval (framesToExtract v interval maxFrames) 0)
               = Inr frames"
    by (auto simp: extract_frames_POST_def extract_frames_parallel_POST_def form_number_def
          Let_def split: if_splits probe_result.splits option.splits sum.splits)
  have "length frames = nat (framesToExtract v interval maxFrames)
      \<and> (\<forall>j < length frames. xf_index (frames ! j) = j
            \<and> xf_timestamp (frames ! j) = frame_timestamp v interval j)"
  proof -
    consider
        (seq) "extract_loop grab videoId v interval (framesToExtract v interval maxFrames) 0
                 = Inr frames"
      | (par) "extract_all grab
                 (frameInfos_loop videoId v interval (framesToExtract v interval maxFrames) 0)
               = Inr frames"
      using frames by blast
    then show ?thesis
    proof cases
      case seq
      from extract_loop_frames [OF seq] show ?thesis by simp
    next
      case par
      from extract_all_frames [OF par]
           frameInfos_loop_infos [of videoId v interval "framesToExtract v interval maxFrames" 0]
      show ?thesis by simp
    qed
  qed
  then have len: "length frames = nat (framesToExtract v interval maxFrames)"
    and nth: "\<forall>j < length frames. xf_index (frames ! j) = j
            \<and> xf_timestamp (frames ! j) = frame_timestamp v interval j"
    by blast+
  from video meta have ok: "0 \<le> vs_duration v \<or> 0 < vs_fps v"
    by simp
  have fps: "vs_fps v = md_fps meta"
    using meta by simp
  from plan_frames [OF len nth i1 m1 ok] show ?thesis
    unfolding fps .
qed

lemma extraction_example:
  "extract_frames_POST True (Some 30) (Some 3) (lit ''id'')
     (ProbeStreams (Some \<lparr>vs_duration = 10, vs_fps = 30, vs_width = 640, vs_height = 360\<rparr>))
     (\<lambda>i t. Inr [])
   = ExtractOk
       [\<lparr>xf_index = 0, xf_timestamp = 0, xf_base64 = lit ''data:image/png;base64,'',
         xf_filename = lit ''frame_id_0.png'', xf_url = None\<rparr>,
        \<lparr>xf_index = 1, xf_timestamp = 1, xf_base64 = lit ''data:image/png;base64,'',
         xf_filename = lit ''frame_id_1.png'', xf_url = None\<rparr>,
        \<lparr>xf_index = 2, xf_timestamp = 2, xf_base64 = lit ''data:image/png;base64,'',
         xf_filename = lit ''frame_id_2.png'', xf_url = None\<rparr>]
       \<lparr>md_duration = 10, md_fps = 30, md_width = 640, md_height = 360\<rparr>"
  by (simp add: extract_frames_POST_def form_number_def framesToExtract_def totalFrames_def
        frameInterval_def extract_loop.simps frame_timestamp_def frame_filename_def
        show_nat.simps lit_def)

theorem extraction_count_and_timestamps_witness:
  "\<exists>frames meta.
     extract_frames_POST True (Some 30) (Some 3) (lit ''id'')
       (ProbeStreams (Some \<lparr>vs_duration = 10, vs_fps = 30, vs_width = 640, vs_height = 360\<rparr>))
       (\<lambda>i t. Inr []) = ExtractOk frames meta
     \<and> length frames = 3 \<and> 0 < md_fps meta
     \<and> xf_timestamp (frames ! 0) < xf_timestamp (frames ! 1)
     \<and> xf_timestamp (frames ! 1) < xf_timestamp (frames ! 2)"
proof -
  let ?meta = "\<lparr>md_duration = 10, md_fps = 30, md_width = 640, md_height = 360\<rparr>"
  let ?frames =
    "[\<lparr>xf_index = 0, xf_timestamp = 0, xf_base64 = lit ''data:image/png;base64,'',
       xf_filename = lit ''frame_id_0.png'', xf_url = None\<rparr>,
      \<lparr>xf_index = 1, xf_timestamp = 1, xf_base64 = lit ''data:image/png;base64,'',
       xf_filename = lit ''frame_id_1.png'', xf_url = None\<rparr>,
      \<lparr>xf_index = 2, xf_timestamp = 2, xf_base64 = lit ''data:image/png;base64,'',
       xf_filename = lit ''frame_id_2.png'', xf_url = None\<rparr>]"
  note run = extraction_example
  have video: "0 \<le> md_duration ?meta \<or> 0 < md_fps ?meta"
    by simp
  have "int (length ?frames) \<le> 3
     \<and> (\<forall>j < length ?frames. xf_index (?frames ! j) = j
            \<and> xf_timestamp (?frames ! j) = real (j * nat 30) / md_fps ?meta)
     \<and> (\<forall>j k. j < k \<longrightarrow> k < length ?frames \<longrightarrow>
            xf_timestamp (?frames ! j) < xf_timestamp (?frames ! k))"
    by (rule extraction_count_and_timestamps [OF disjI1 [OF run] _ _ video]) simp_all
  then have "xf_timestamp (?frames ! 0) < xf_timestamp (?frames ! 1)
           \<and> xf_timestamp (?frames ! 1) < xf_timestamp (?frames ! 2)"
    by simp
  with run show ?thesis
    by (intro exI [of _ ?frames] exI [of _ ?meta]) simp
qed

lemma fst_editFrames_loop_Cons:
  "fst (editFrames_loop edit_api download prompt fmt n i prev (frame # rest)) =
     (case try_edit_frame edit_api download prompt fmt i frame prev of
        Inr ef \<Rightarrow>
          ef # fst (editFrames_loop edit_api download prompt fmt n (Suc i) (ef_editedUrl ef) rest)
      | Inl err \<Rightarrow>
          \<lparr>ef_index = xf_index frame, ef_originalUrl = xf_url frame,
           ef_editedUrl = xf_url frame, ef_editedBlob = None\<rparr>
          # fst (editFrames_loop edit_api download prompt fmt n (Suc i) prev rest))"
  by (simp add: Let_def case_prod_beta split: sum.splits)

lemma editFrames_loop_indices:
  "map ef_index (fst (editFrames_loop edit_api download prompt fmt n i prev frames))
     = map xf_index frames"
proof (induction frames arbitrary: i prev)
  case Nil
  then show ?case by simp
next
  case (Cons frame rest)
  show ?case
  proof (cases "try_edit_frame edit_api download prompt fmt i frame prev")
    case (Inl err)
    then show ?thesis
      using Cons.IH [of "Suc i" prev] by (simp add: fst_editFrames_loop_Cons del: editFrames_loop.simps)
  next
    case (Inr ef)
    then have "ef_index ef = xf_index frame"
      by (auto simp: try_edit_frame_def Let_def
            split: edit_api_result.splits if_splits sum.splits)
    with Inr show ?thesis
      using Cons.IH [of "Suc i" "ef_editedUrl ef"] by (simp add: fst_editFrames_loop_Cons del: editFrames_loop.simps)
  qed
qed

lemma editFrames_loop_nth:
  "k < length frames \<Longrightarrow>
   fst (editFrames_loop edit_api download prompt fmt n i prev frames) ! k
     = (case try_edit_frame edit_api download prompt fmt (i + k) (frames ! k)
               (previousEditedUrl_at edit_api download prompt fmt i prev frames k) of
          Inr editedFrame \<Rightarrow> editedFrame
        | Inl err \<Rightarrow>
            \<lparr>ef_index = xf_index (frames ! k), ef_originalUrl = xf_url (frames ! k),
             ef_editedUrl = xf_url (frames ! k), ef_editedBlob = None\<rparr>)"
proof (induction frames arbitrary: i prev k)
  case Nil
  then show ?case by simp
next
  case (Cons frame rest)
  show ?case
  proof (cases k)
    case 0
    then show ?thesis
      by (cases "try_edit_frame edit_api download prompt fmt i frame prev")
         (simp_all add: fst_editFrames_loop_Cons del: editFrames_loop.simps)
  next
    case (Suc k')
    with Cons.prems have k': "k' < length rest"
      by simp
    show ?thesis
    proof (cases "try_edit_frame edit_api download prompt fmt i frame prev")
      case (Inl err)
      with Cons.IH [OF k', of "Suc i" prev] show ?thesis
        unfolding Suc
        by (simp add: fst_editFrames_loop_Cons cong: sum.case_cong del: editFrames_loop.simps)
    next
      case (Inr ef)
      with Cons.IH [OF k', of "Suc i" "ef_editedUrl ef"] show ?thesis
        unfolding Suc
        by (simp add: fst_editFrames_loop_Cons cong: sum.case_cong del: editFrames_loop.simps)
    qed
  qed
qed

text \<open>
  C10. \<open>editFrames\<close> is a total function of its inputs: no failure of an edit call
  makes it reject. It returns one edited frame per input frame, in input order (the
  indices are those of the input, position by position). Where the \<open>try\<close> block of
  position \<open>k\<close> fails in the run, that is, with the previous edited URL the loop has
  reached there, the frame returned at \<open>k\<close> has the frame's own \<open>url\<close> as \<open>editedUrl\<close>
  and no blob; where it succeeds, the frame returned at \<open>k\<close> is the one it built. The
  last progress report has status \<open>completed\<close>.
\<close>

theorem editFrames_never_rejects:
  "length (fst (editFrames edit_api download frames prompt fmt)) = length frames
   \<and> map ef_index (fst (editFrames edit_api download frames prompt fmt)) = map xf_index frames
   \<and> (\<forall>k < length frames.
         isl (try_edit_frame edit_api download prompt fmt k (frames ! k)
                (previousEditedUrl_at edit_api download prompt fmt 0 None frames k)) \<longrightarrow>
         fst (editFrames edit_api download frames prompt fmt) ! k
           = \<lparr>ef_index = xf_index (frames ! k), ef_originalUrl = xf_url (frames ! k),
              ef_editedUrl = xf_url (frames ! k), ef_editedBlob = None\<rparr>)
   \<and> (\<forall>k < length frames. \<forall>editedFrame.
         try_edit_frame edit_api download prompt fmt k (frames ! k)
           (previousEditedUrl_at edit_api download prompt fmt 0 None frames k)
           = Inr editedFrame \<longrightarrow>
         fst (editFrames edit_api download frames prompt fmt) ! k = editedFrame)
   \<and> last (snd (editFrames edit_api download frames prompt fmt))
        = \<lparr>ep_current = length frames, ep_total = length frames, ep_currentFrame = None,
           ep_status = lit ''completed'',
           ep_message = Some (lit ''All frames processed successfully'')\<rparr>"
proof -
  have fst_eq: "fst (editFrames edit_api download frames prompt fmt)
      = fst (editFrames_loop edit_api download prompt fmt (length frames) 0 None frames)"
    by (simp add: editFrames_def case_prod_beta)
  have idx: "map ef_index (fst (editFrames edit_api download frames prompt fmt))
      = map xf_index frames"
    unfolding fst_eq by (rule editFrames_loop_indices)
  from idx have len: "length (fst (editFrames edit_api download frames prompt fmt)) = length frames"
    by (metis length_map)
  have nth: "fst (editFrames edit_api download frames prompt fmt) ! k
      = (case try_edit_frame edit_api download prompt fmt k (frames ! k)
               (previousEditedUrl_at edit_api download prompt fmt 0 None frames k) of
          Inr editedFrame \<Rightarrow> editedFrame
        | Inl err \<Rightarrow>
            \<lparr>ef_index = xf_index (frames ! k), ef_originalUrl = xf_url (frames ! k),
             ef_editedUrl = xf_url (frames ! k), ef_editedBlob = None\<rparr>)"
    if "k < length frames" for k
    unfolding fst_eq
    using editFrames_loop_nth [OF that, of edit_api download prompt fmt "length frames" 0 None]
    by simp
  have fb: "fst (editFrames edit_api download frames prompt fmt) ! k
           = \<lparr>ef_index = xf_index (frames ! k), ef_originalUrl = xf_url (frames ! k),
              ef_editedUrl = xf_url (frames ! k), ef_editedBlob = None\<rparr>"
    if "k < length frames"
      and "isl (try_edit_frame edit_api download prompt fmt k (frames ! k)
                  (previousEditedUrl_at edit_api download prompt fmt 0 None frames k))" for k
    using nth [OF that(1)] that(2) by (auto simp: isl_def)
  have ok: "fst (editFrames edit_api download frames prompt fmt) ! k = editedFrame"
    if "k < length frames"
      and "try_edit_frame edit_api download prompt fmt k (frames ! k)
             (previousEditedUrl_at edit_api download prompt fmt 0 None frames k)
           = Inr editedFrame" for k editedFrame
    using nth [OF that(1)] that(2) by simp
  have fin: "last (snd (editFrames edit_api download frames prompt fmt))
        = \<lparr>ep_current = length frames, ep_total = length frames, ep_currentFrame = None,
           ep_status = lit ''completed'',
           ep_message = Some (lit ''All frames processed successfully'')\<rparr>"
    by (simp add: editFrames_def case_prod_beta)
  from len idx fb ok fin show ?thesis by blast
qed

theorem editFrames_never_rejects_witness:
  "previousEditedUrl_at
       (\<lambda>i p us f. if length us = 1 then EditApiResponse True [] [lit ''https://e/0.png'']
                    else EditApiResponse False (lit ''Bad Gateway'') [])
       (\<lambda>i u. FetchResponse True [] [1, 2]) (lit ''make it night'') (lit ''png'') 0 None
       [\<lparr>xf_index = 0, xf_timestamp = 0, xf_base64 = [], xf_filename = [],
         xf_url = Some (lit ''a'')\<rparr>,
        \<lparr>xf_index = 1, xf_timestamp = 1, xf_base64 = [], xf_filename = [],
         xf_url = Some (lit ''b'')\<rparr>] 1 = Some (lit ''https://e/0.png'')
   \<and> fst (editFrames
       (\<lambda>i p us f. if length us = 1 then EditApiResponse True [] [lit ''https://e/0.png'']
                    else EditApiResponse False (lit ''Bad Gateway'') [])
       (\<lambda>i u. FetchResponse True [] [1, 2])
       [\<lparr>xf_index = 0, xf_timestamp = 0, xf_base64 = [], xf_filename = [],
         xf_url = Some (lit ''a'')\<rparr>,
        \<lparr>xf_index = 1, xf_timestamp = 1, xf_base64 = [], xf_filename = [],
         xf_url = Some (lit ''b'')\<rparr>]
       (lit ''make it night'') (lit ''png'')) ! 0
     = \<lparr>ef_index = 0, ef_originalUrl = Some (lit ''a''),
        ef_editedUrl = Some (lit ''https://e/0.png''), ef_editedBlob = Some [1, 2]\<rparr>
   \<and> fst (editFrames
       (\<lambda>i p us f. if length us = 1 then EditApiResponse True [] [lit ''https://e/0.png'']
                    else EditApiResponse False (lit ''Bad Gateway'') [])
       (\<lambda>i u. FetchResponse True [] [1, 2])
       [\<lparr>xf_index = 0, xf_timestamp = 0, xf_base64 = [], xf_filename = [],
         xf_url = Some (lit ''a'')\<rparr>,
        \<lparr>xf_index = 1, xf_timestamp = 1, xf_base64 = [], xf_filename = [],
         xf_url = Some (lit ''b'')\<rparr>]
       (lit ''make it night'') (lit ''png'')) ! 1
     = \<lparr>ef_index = 1, ef_originalUrl = Some (lit ''b''), ef_editedUrl = Some (lit ''b''),
        ef_editedBlob = None\<rparr>"
proof -
  let ?api = "\<lambda>(i::nat) (p::jsstring) (us::jsstring option list) (f::jsstring).
                 if length us = 1 then EditApiResponse True [] [lit ''https://e/0.png'']
                 else EditApiResponse False (lit ''Bad Gateway'') []"
  let ?dl = "\<lambda>(i::nat) (u::jsstring). FetchResponse True [] [1, 2]"
  let ?f0 = "\<lparr>xf_index = 0, xf_timestamp = 0, xf_base64 = [], xf_filename = [],
         xf_url = Some (lit ''a'')\<rparr>"
  let ?f1 = "\<lparr>xf_index = 1, xf_timestamp = 1, xf_base64 = [], xf_filename = [],
         xf_url = Some (lit ''b'')\<rparr>"
  let ?p = "lit ''make it night''"
  let ?fmt = "lit ''png''"
  have t0: "try_edit_frame ?api ?dl ?p ?fmt 0 ?f0 None
      = Inr \<lparr>ef_index = 0, ef_originalUrl = Some (lit ''a''),
             ef_editedUrl = Some (lit ''https://e/0.png''), ef_editedBlob = Some [1, 2]\<rparr>"
    by (simp add: try_edit_frame_def truthy_def first_image_url_def downloadImage_def)
  have prev: "previousEditedUrl_at ?api ?dl ?p ?fmt 0 None [?f0, ?f1] 1
      = Some (lit ''https://e/0.png'')"
    using t0 by (simp add: numeral_eq_Suc)
  have t1: "isl (try_edit_frame ?api ?dl ?p ?fmt 1 ([?f0, ?f1] ! 1)
                  (previousEditedUrl_at ?api ?dl ?p ?fmt 0 None [?f0, ?f1] 1))"
    unfolding prev by (simp add: try_edit_frame_def truthy_def lit_Nil)
  have t0': "try_edit_frame ?api ?dl ?p ?fmt 0 ([?f0, ?f1] ! 0)
               (previousEditedUrl_at ?api ?dl ?p ?fmt 0 None [?f0, ?f1] 0)
      = Inr \<lparr>ef_index = 0, ef_originalUrl = Some (lit ''a''),
             ef_editedUrl = Some (lit ''https://e/0.png''), ef_editedBlob = Some [1, 2]\<rparr>"
    using t0 by simp
  have k0: "(0::nat) < length [?f0, ?f1]" and k1: "(1::nat) < length [?f0, ?f1]"
    by simp_all
  note inst = editFrames_never_rejects [of ?api ?dl "[?f0, ?f1]" ?p ?fmt]
  from inst k1 t1 have r1: "fst (editFrames ?api ?dl [?f0, ?f1] ?p ?fmt) ! 1
      = \<lparr>ef_index = xf_index ([?f0, ?f1] ! 1), ef_originalUrl = xf_url ([?f0, ?f1] ! 1),
         ef_editedUrl = xf_url ([?f0, ?f1] ! 1), ef_editedBlob = None\<rparr>"
    by blast
  from inst k0 t0' have r0: "fst (editFrames ?api ?dl [?f0, ?f1] ?p ?fmt) ! 0
      = \<lparr>ef_index = 0, ef_originalUrl = Some (lit ''a''),
         ef_editedUrl = Some (lit ''https://e/0.png''), ef_editedBlob = Some [1, 2]\<rparr>"
    by blast
  from prev r0 r1 show ?thesis
    by simp
qed

subsection \<open>The reassembly route leaves its directory behind\<close>

lemma map_of_remove_entry:
  "map_of (remove_entry p fs) q = (if q = p then None else map_of fs q)"
  by (induction fs) (auto simp: remove_entry_def)

lemma directory_unlink_catch:
  "map_of (unlink_catch fs p) q = Some Directory \<longleftrightarrow> map_of fs q = Some Directory"
  by (auto simp: unlink_catch_def unlink_def map_of_remove_entry
        split: option.splits node.splits if_splits)

lemma directory_foldl_unlink_catch:
  "map_of (foldl unlink_catch fs ps) q = Some Directory \<longleftrightarrow> map_of fs q = Some Directory"
  by (induction ps arbitrary: fs) (simp_all add: directory_unlink_catch)

lemma directory_foldl_unlink_catch_join:
  "map_of (foldl (\<lambda>f name. unlink_catch f (join d name)) fs names) q = Some Directory
     \<longleftrightarrow> map_of fs q = Some Directory"
  by (induction names arbitrary: fs) (simp_all add: directory_unlink_catch)

lemma directory_writeFile:
  "writeFile fs p content = Inr fs' \<Longrightarrow>
   map_of fs' q = Some Directory \<longleftrightarrow> map_of fs q = Some Directory"
  by (auto simp: writeFile_def map_of_remove_entry split: if_splits)

lemma directory_processFrames:
  "processFrames env d i frames fs = (fs', written, failure) \<Longrightarrow>
   map_of fs' q = Some Directory \<longleftrightarrow> map_of fs q = Some Directory"
proof (induction frames arbitrary: i fs fs' written failure)
  case Nil
  then show ?case by simp
next
  case (Cons frame frames)
  show ?case
  proof (cases "frameBuffer env frame i")
    case (Inl err)
    with Cons.prems obtain w f where "processFrames env d (Suc i) frames fs = (fs', w, f)"
      by (auto split: prod.splits)
    from Cons.IH [OF this] show ?thesis .
  next
    case (Inr buffer)
    show ?thesis
    proof (cases "writeFile fs (join d (frameFilename i)) buffer")
      case (Inl err)
      with Inr Cons.prems obtain w f where "processFrames env d (Suc i) frames fs = (fs', w, f)"
        by (auto split: prod.splits)
      from Cons.IH [OF this] show ?thesis .
    next
      case wr: (Inr fs1)
      with Inr Cons.prems obtain w f where "processFrames env d (Suc i) frames fs1 = (fs', w, f)"
        by (auto split: prod.splits)
      from Cons.IH [OF this] directory_writeFile [OF wr] show ?thesis by simp
    qed
  qed
qed

lemma directory_success_cleanup:
  "map_of (success_cleanup d ps v fs) q = Some Directory \<longleftrightarrow> map_of fs q = Some Directory"
  by (simp add: success_cleanup_def Let_def directory_unlink_catch directory_foldl_unlink_catch)

lemma directory_error_cleanup:
  "map_of (error_cleanup d v fs) q = Some Directory \<longleftrightarrow> map_of fs q = Some Directory"
  by (simp add: error_cleanup_def Let_def directory_unlink_catch
        directory_foldl_unlink_catch_join split: option.splits)

lemma directory_after_mkdir:
  "map_of fs d \<noteq> Some Directory \<Longrightarrow> \<not> existsSync fs d \<Longrightarrow>
   map_of (mkdir_recursive fs d) d = Some Directory"
  by (simp add: mkdir_recursive_def)

text \<open>
  C5 fails on the code. Whenever the route gets past its check of the request, on the
  success path and on the error path alike, the staging directory it created is still
  there when it answers: both cleanups call \<open>unlink\<close> on the directory, which fails, and
  the error is caught and logged.
\<close>

theorem staging_directory_is_left_behind:
  assumes frames: "frames \<noteq> []"
    and fresh: "\<not> existsSync fs (join (env_tmpdir env) (lit ''video_reassemble_'' @ env_sessionId env))"
  shows "map_of (snd (reassemble_POST env (Some frames) fps outputFormat fs))
           (join (env_tmpdir env) (lit ''video_reassemble_'' @ env_sessionId env))
         = Some Directory"
proof -
  let ?d = "join (env_tmpdir env) (lit ''video_reassemble_'' @ env_sessionId env)"
  let ?fs1 = "mkdir_recursive fs ?d"
  obtain fs2 written failure where
    pf: "processFrames env ?d 0 frames ?fs1 = (fs2, written, failure)"
    by (metis prod_cases3)
  have d1: "map_of ?fs1 ?d = Some Directory"
    using fresh by (simp add: mkdir_recursive_def)
  have d2: "map_of fs2 ?d = Some Directory"
    using directory_processFrames [OF pf] d1 by simp
  have d3: "map_of fs3 ?d = Some Directory"
    if "writeFile fs2 p content = Inr fs3" for fs3 p content
    using directory_writeFile [OF that] d2 by simp
  show ?thesis
    using frames fresh pf d2 d3
    by (auto simp: reassemble_POST_def Let_def directory_success_cleanup
          directory_error_cleanup
          split: option.splits ffmpeg_result.splits sum.splits)
qed

lemma example_reassembly_success:
  "reassemble_POST example_env (Some [\<lparr>fd_base64 = Some (lit ''iVBORw0KGgo=''), fd_url = None\<rparr>])
     30 (lit ''mp4'') example_fs
   = (ReassembleOk [9, 9] 2,
      [([lit ''tmp'', lit ''video_reassemble_s1''], Directory), ([lit ''tmp''], Directory)])"
  by code_simp

lemma example_reassembly_failure:
  "reassemble_POST example_env
     (Some [\<lparr>fd_base64 = Some (lit ''iVBORw0KGgo=''), fd_url = None\<rparr>,
            \<lparr>fd_base64 = None, fd_url = None\<rparr>])
     30 (lit ''mp4'') example_fs
   = (ReassembleError 500 (lit ''Failed to reassemble video'')
        (Some (lit ''Invalid frame data at index 1'')),
      [([lit ''tmp'', lit ''video_reassemble_s1''], Directory), ([lit ''tmp''], Directory)])"
  by code_simp

theorem staging_directory_is_left_behind_witness:
  "reassemble_POST example_env (Some [\<lparr>fd_base64 = Some (lit ''iVBORw0KGgo=''), fd_url = None\<rparr>])
     30 (lit ''mp4'') example_fs
   = (ReassembleOk [9, 9] 2,
      [([lit ''tmp'', lit ''video_reassemble_s1''], Directory), ([lit ''tmp''], Directory)])
   \<and> map_of (snd (reassemble_POST example_env
                  (Some [\<lparr>fd_base64 = Some (lit ''iVBORw0KGgo=''), fd_url = None\<rparr>])
                  30 (lit ''mp4'') example_fs))
        (join (env_tmpdir example_env) (lit ''video_reassemble_'' @ env_sessionId example_env))
      = Some Directory"
proof -
  have fresh: "\<not> existsSync example_fs
      (join (env_tmpdir example_env) (lit ''video_reassemble_'' @ env_sessionId example_env))"
    by code_simp
  have frames: "[\<lparr>fd_base64 = Some (lit ''iVBORw0KGgo=''), fd_url = None\<rparr>] \<noteq> []"
    by simp
  from staging_directory_is_left_behind [OF frames fresh, of 30 "lit ''mp4''"]
       example_reassembly_success
  show ?thesis
    by blast
qed

subsection \<open>Sessions of the orchestrator\<close>

lemma reassembly_loop_from_1:
  "reassembly_loop w n frames (Suc 0) s =
     (case w_reassembleVideo w (Suc 0) frames of
        Inr v \<Rightarrow>
          (Break v, s\<lparr>s_trace := s_trace s @ [ReassembleCall False frames, ReassembleSettled True]\<rparr>)
      | Inl e1 \<Rightarrow>
          (case w_reassembleVideo w (Suc (Suc 0)) frames of
             Inr v \<Rightarrow>
               (Break v,
                s\<lparr>s_trace := s_trace s @ [ReassembleCall False frames, ReassembleSettled False,
                     Wait 1000, ReassembleCall False frames, ReassembleSettled True]\<rparr>)
           | Inl e2 \<Rightarrow>
               (Return,
                s\<lparr>s_trace := s_trace s @ [ReassembleCall False frames, ReassembleSettled False,
                     Wait 1000, ReassembleCall False frames, ReassembleSettled False],
                  s_ui := (s_ui s)
                    \<lparr>ui_progress := Some
                        \<lparr>ep_current = n + 2, ep_total = n + 2,
                         ep_currentFrame = None, ep_status = lit ''processing'',
                         ep_message = Some (lit
                           ''Automatic assembly failed. Please use manual assembly button.'')\<rparr>,
                     ui_currentStep := Editing,
                     ui_isProcessing := False\<rparr>\<rparr>)))"
proof -
  have second: "reassembly_loop w n frames (Suc (Suc 0)) s' =
     (let s1 = s'\<lparr>s_trace := s_trace s' @ [ReassembleCall False frames]\<rparr>
      in case w_reassembleVideo w (Suc (Suc 0)) frames of
           Inr v \<Rightarrow> (Break v, s1\<lparr>s_trace := s_trace s1 @ [ReassembleSettled True]\<rparr>)
         | Inl e \<Rightarrow>
             (Return,
              s1\<lparr>s_trace := s_trace s1 @ [ReassembleSettled False],
                 s_ui := (s_ui s1)
                    \<lparr>ui_progress := Some
                        \<lparr>ep_current = n + 2, ep_total = n + 2,
                         ep_currentFrame = None, ep_status = lit ''processing'',
                         ep_message = Some (lit
                           ''Automatic assembly failed. Please use manual assembly button.'')\<rparr>,
                     ui_currentStep := Editing,
                     ui_isProcessing := False\<rparr>\<rparr>))" for s'
    by (subst reassembly_loop.simps) (simp add: maxRetries_def Let_def split: sum.splits)
  show ?thesis
    by (subst reassembly_loop.simps) (simp add: maxRetries_def second Let_def split: sum.splits)
qed

lemma after_fanout_first_attempt:
  assumes "w_reassembleVideo w (Suc 0) (editedFramesForReassembly (s_allEditedFrames s)) = Inr v"
  shows "after_fanout w n s =
     s\<lparr>s_ui := (s_ui s)\<lparr>ui_editedVideoUrl := Some v, ui_currentStep := Complete,
                         ui_isProcessing := False, ui_currentEditingFrame := - 1\<rparr>,
       s_trace := s_trace s
         @ [ValidateUrls (map rf_url (take 3 (editedFramesForReassembly (s_allEditedFrames s)))),
            ReassembleCall False (editedFramesForReassembly (s_allEditedFrames s)),
            ReassembleSettled True, OnComplete v]\<rparr>"
  using assms
  by (simp add: after_fanout_def Let_def reassembly_loop_from_1 finally_block_def)

lemma after_fanout_second_attempt:
  assumes "w_reassembleVideo w (Suc 0) (editedFramesForReassembly (s_allEditedFrames s)) = Inl e"
    and "w_reassembleVideo w (Suc (Suc 0)) (editedFramesForReassembly (s_allEditedFrames s)) = Inr v"
  shows "after_fanout w n s =
     s\<lparr>s_ui := (s_ui s)\<lparr>ui_editedVideoUrl := Some v, ui_currentStep := Complete,
                         ui_isProcessing := False, ui_currentEditingFrame := - 1\<rparr>,
       s_trace := s_trace s
         @ [ValidateUrls (map rf_url (take 3 (editedFramesForReassembly (s_allEditedFrames s)))),
            ReassembleCall False (editedFramesForReassembly (s_allEditedFrames s)),
            ReassembleSettled False, Wait 1000,
            ReassembleCall False (editedFramesForReassembly (s_allEditedFrames s)),
            ReassembleSettled True, OnComplete v]\<rparr>"
  using assms
  by (simp add: after_fanout_def Let_def reassembly_loop_from_1 finally_block_def)

lemma after_fanout_no_attempt_left:
  assumes "w_reassembleVideo w (Suc 0) (editedFramesForReassembly (s_allEditedFrames s)) = Inl e"
    and "w_reassembleVideo w (Suc (Suc 0)) (editedFramesForReassembly (s_allEditedFrames s)) = Inl e'"
  shows "after_fanout w n s =
     s\<lparr>s_ui := (s_ui s)
            \<lparr>ui_progress := Some
                \<lparr>ep_current = n + 2, ep_total = n + 2,
                 ep_currentFrame = None, ep_status = lit ''processing'',
                 ep_message = Some (lit
                   ''Automatic assembly failed. Please use manual assembly button.'')\<rparr>,
             ui_currentStep := Editing,
             ui_isProcessing := False, ui_currentEditingFrame := - 1\<rparr>,
       s_trace := s_trace s
         @ [ValidateUrls (map rf_url (take 3 (editedFramesForReassembly (s_allEditedFrames s)))),
            ReassembleCall False (editedFramesForReassembly (s_allEditedFrames s)),
            ReassembleSettled False, Wait 1000,
            ReassembleCall False (editedFramesForReassembly (s_allEditedFrames s)),
            ReassembleSettled False]\<rparr>"
  using assms
  by (simp add: after_fanout_def Let_def reassembly_loop_from_1 finally_block_def)

lemma after_fanout_closure:
  "s_allEditedFrames (after_fanout w n s) = s_allEditedFrames s"
  "s_pending (after_fanout w n s) = s_pending s"
  "s_join (after_fanout w n s) = s_join s"
  "s_completedFrames (after_fanout w n s) = s_completedFrames s"
  "ui_editedFrames (s_ui (after_fanout w n s)) = ui_editedFrames (s_ui s)"
  "ui_extractedFrames (s_ui (after_fanout w n s)) = ui_extractedFrames (s_ui s)"
proof -
  let ?fs = "editedFramesForReassembly (s_allEditedFrames s)"
  consider (a) v where "w_reassembleVideo w (Suc 0) ?fs = Inr v"
    | (b) e v where "w_reassembleVideo w (Suc 0) ?fs = Inl e"
         "w_reassembleVideo w (Suc (Suc 0)) ?fs = Inr v"
    | (c) e e' where "w_reassembleVideo w (Suc 0) ?fs = Inl e"
         "w_reassembleVideo w (Suc (Suc 0)) ?fs = Inl e'"
    by (metis sum.exhaust)
  then have "s_allEditedFrames (after_fanout w n s) = s_allEditedFrames s
     \<and> s_pending (after_fanout w n s) = s_pending s
     \<and> s_join (after_fanout w n s) = s_join s
     \<and> s_completedFrames (after_fanout w n s) = s_completedFrames s
     \<and> ui_editedFrames (s_ui (after_fanout w n s)) = ui_editedFrames (s_ui s)
     \<and> ui_extractedFrames (s_ui (after_fanout w n s)) = ui_extractedFrames (s_ui s)"
  proof cases
    case a
    then show ?thesis by (simp add: after_fanout_first_attempt)
  next
    case b
    then show ?thesis by (simp add: after_fanout_second_attempt)
  next
    case c
    then show ?thesis by (simp add: after_fanout_no_attempt_left)
  qed
  then show
    "s_allEditedFrames (after_fanout w n s) = s_allEditedFrames s"
    "s_pending (after_fanout w n s) = s_pending s"
    "s_join (after_fanout w n s) = s_join s"
    "s_completedFrames (after_fanout w n s) = s_completedFrames s"
    "ui_editedFrames (s_ui (after_fanout w n s)) = ui_editedFrames (s_ui s)"
    "ui_extractedFrames (s_ui (after_fanout w n s)) = ui_extractedFrames (s_ui s)"
    by simp_all
qed

lemma after_fanout_trace:
  "\<exists>T. s_trace (after_fanout w n s) = s_trace s @ T
       \<and> (\<forall>c \<in> set T. reassembly_phase_call (editedFramesForReassembly (s_allEditedFrames s)) c)
       \<and> length (filter is_automatic_reassemble T) \<le> 2"
proof -
  let ?fs = "editedFramesForReassembly (s_allEditedFrames s)"
  consider (a) v where "w_reassembleVideo w (Suc 0) ?fs = Inr v"
    | (b) e v where "w_reassembleVideo w (Suc 0) ?fs = Inl e"
         "w_reassembleVideo w (Suc (Suc 0)) ?fs = Inr v"
    | (c) e e' where "w_reassembleVideo w (Suc 0) ?fs = Inl e"
         "w_reassembleVideo w (Suc (Suc 0)) ?fs = Inl e'"
    by (metis sum.exhaust)
  then show ?thesis
  proof cases
    case a
    then show ?thesis by (simp add: after_fanout_first_attempt)
  next
    case b
    then show ?thesis by (simp add: after_fanout_second_attempt)
  next
    case c
    then show ?thesis by (simp add: after_fanout_no_attempt_left)
  qed
qed

lemma settle_not_pending:
  "frameIndex \<notin> set (s_pending s) \<Longrightarrow> settle w frames frameIndex response s = s"
  by (simp add: settle_def)

lemma settle_rejected:
  assumes "frameIndex \<in> set (s_pending s)"
    and "processFrameWithDiff (frames ! frameIndex) frameIndex response = Inl err"
  shows "settle w frames frameIndex response s =
     (if s_join s = Waiting
      then s\<lparr>s_pending := removeAll frameIndex (s_pending s),
             s_trace := s_trace s @ [EditFrameSettled frameIndex False],
             s_join := Rejected,
             s_ui := finally_block (catch_block err (s_ui s))\<rparr>
      else s\<lparr>s_pending := removeAll frameIndex (s_pending s),
             s_trace := s_trace s @ [EditFrameSettled frameIndex False]\<rparr>)"
  using assms by (simp add: settle_def Let_def)

lemma settle_fulfilled:
  assumes "frameIndex \<in> set (s_pending s)"
    and "processFrameWithDiff (frames ! frameIndex) frameIndex response = Inr result"
  shows "settle w frames frameIndex response s =
     (if s_join s = Waiting \<and> removeAll frameIndex (s_pending s) = []
      then after_fanout w (length frames)
             (resolved (length frames) (pushed (length frames) frameIndex result s))
      else pushed (length frames) frameIndex result s)"
  using assms by (simp add: settle_def Let_def pushed_def)

lemma processFrameWithDiff_index:
  "processFrameWithDiff frame i response = Inr result \<Longrightarrow> ef_index result = i"
  by (auto simp: processFrameWithDiff_def split: edit_api_result.splits if_splits sum.splits)

lemma precedes_append:
  "precedes P Q (xs @ ys) \<longleftrightarrow> precedes P Q xs \<and> ((\<exists>x\<in>set xs. P x) \<or> precedes P Q ys)"
  by (induction xs) auto

lemma precedes_none: "\<forall>x\<in>set xs. \<not> Q x \<Longrightarrow> precedes P Q xs"
  by (induction xs) auto

lemma map_rf_index_editedFramesForReassembly:
  "map rf_index (editedFramesForReassembly efs) = map ef_index efs"
  by (simp add: editedFramesForReassembly_def comp_def)

lemma reassembly_phase_call_automatic:
  "reassembly_phase_call fs c \<Longrightarrow> c = ReassembleCall False fs' \<Longrightarrow> fs' = fs"
  by (cases c) auto

lemma trace_inv_after_fanout:
  assumes no_auto: "\<not> list_ex is_automatic_reassemble (s_trace s)"
    and settled: "\<forall>i<n. EditFrameSettled i True \<in> set (s_trace s)"
    and dist: "distinct (map ef_index (s_allEditedFrames s))"
    and cover: "set (map ef_index (s_allEditedFrames s)) = {0..<n}"
  shows "trace_inv n (after_fanout w n s)"
proof -
  let ?fs = "editedFramesForReassembly (s_allEditedFrames s)"
  from after_fanout_trace [of w n s] obtain T where
    T: "s_trace (after_fanout w n s) = s_trace s @ T"
    and calls: "\<forall>c \<in> set T. reassembly_phase_call ?fs c"
    and count: "length (filter is_automatic_reassemble T) \<le> 2"
    by blast
  from no_auto have none: "\<forall>c\<in>set (s_trace s). \<not> is_automatic_reassemble c"
    by (simp add: list_ex_iff)
  have a: "fulfilled_before_automatic_reassembly i (s_trace (after_fanout w n s))" if "i < n" for i
  proof -
    from settled that have "\<exists>c\<in>set (s_trace s). c = EditFrameSettled i True"
      by simp
    with none show ?thesis
      unfolding fulfilled_before_automatic_reassembly_def T precedes_append
      by (simp add: precedes_none)
  qed
  from none have "filter is_automatic_reassemble (s_trace s) = []"
    by (simp add: filter_empty_conv)
  with count have b: "length (filter is_automatic_reassemble (s_trace (after_fanout w n s))) \<le> 2"
    by (simp add: T)
  have c: "distinct (map rf_index fs) \<and> set (map rf_index fs) = {0..<n}"
    if "ReassembleCall False fs \<in> set (s_trace (after_fanout w n s))" for fs
  proof -
    from that none have "ReassembleCall False fs \<in> set T"
      unfolding T by auto
    with calls have "fs = ?fs"
      using reassembly_phase_call_automatic by blast
    with dist cover show ?thesis
      by (simp add: map_rf_index_editedFramesForReassembly)
  qed
  from a b c show ?thesis
    unfolding trace_inv_def by blast
qed

lemma trace_inv_append:
  assumes "trace_inv n s"
    and "s_trace s' = s_trace s @ T"
    and "\<forall>c\<in>set T. \<not> is_automatic_reassemble c"
  shows "trace_inv n s'"
proof -
  from assms(3) have f: "filter is_automatic_reassemble T = []"
    by (simp add: filter_empty_conv)
  have m: "ReassembleCall False fs \<notin> set T" for fs
    using assms(3) by force
  from assms(1) show ?thesis
    unfolding trace_inv_def fulfilled_before_automatic_reassembly_def assms(2) precedes_append
    using assms(3) f m by (simp add: precedes_none)
qed

lemma pushed_fields [simp]:
  "s_pending (pushed n i r s) = removeAll i (s_pending s)"
  "s_allEditedFrames (pushed n i r s) = s_allEditedFrames s @ [r]"
  "s_join (pushed n i r s) = s_join s"
  "s_trace (pushed n i r s) = s_trace s @ [EditFrameSettled i True]"
  "ui_editedFrames (s_ui (pushed n i r s)) = s_allEditedFrames s @ [r]"
  "ui_extractedFrames (s_ui (pushed n i r s)) = ui_extractedFrames (s_ui s)"
  by (simp_all add: pushed_def)

lemma resolved_fields [simp]:
  "s_pending (resolved n s) = s_pending s"
  "s_allEditedFrames (resolved n s) = s_allEditedFrames s"
  "s_join (resolved n s) = Resolved"
  "s_trace (resolved n s) = s_trace s"
  "ui_editedFrames (s_ui (resolved n s)) = ui_editedFrames (s_ui s)"
  "ui_extractedFrames (s_ui (resolved n s)) = ui_extractedFrames (s_ui s)"
  by (simp_all add: resolved_def)

lemma closure_inv_pushed:
  assumes "closure_inv n s" and "i \<in> set (s_pending s)" and "ef_index r = i"
  shows "closure_inv n (pushed n i r s)"
  using assms unfolding closure_inv_def by (auto simp: distinct_removeAll)

lemma edited_inv_pushed:
  assumes "closure_inv n s" and "i \<in> set (s_pending s)" and "ef_index r = i"
  shows "edited_inv n (pushed n i r s)"
  using assms unfolding closure_inv_def edited_inv_def by auto

lemma closure_inv_cong:
  assumes "closure_inv n s"
    and "s_allEditedFrames s' = s_allEditedFrames s" and "s_pending s' = s_pending s"
  shows "closure_inv n s'"
  using assms unfolding closure_inv_def by simp

lemma edited_inv_cong:
  assumes "edited_inv n s"
    and "ui_editedFrames (s_ui s') = ui_editedFrames (s_ui s) \<or> ui_editedFrames (s_ui s') = []"
  shows "edited_inv n s'"
  using assms unfolding edited_inv_def by auto

lemma session_inv_settle:
  assumes inv: "session_inv n s" and len: "length frames = n"
  shows "session_inv n (settle w frames i response s)"
proof (cases "i \<in> set (s_pending s)")
  case False
  with inv show ?thesis by (simp add: settle_not_pending)
next
  case pending: True
  from inv have cl: "closure_inv n s" and ed: "edited_inv n s" and wa: "waiting_inv n s"
    and tr: "trace_inv n s"
    by (simp_all add: session_inv_def)
  show ?thesis
  proof (cases "processFrameWithDiff (frames ! i) i response")
    case (Inl err)
    let ?s' = "settle w frames i response s"
    have pend: "s_pending ?s' = removeAll i (s_pending s)"
      and all: "s_allEditedFrames ?s' = s_allEditedFrames s"
      and trace: "s_trace ?s' = s_trace s @ [EditFrameSettled i False]"
      and edited: "ui_editedFrames (s_ui ?s') = ui_editedFrames (s_ui s)"
      and join: "s_join ?s' = Waiting \<longrightarrow> s_join s = Waiting \<and> False"
      by (simp_all add: settle_rejected [OF pending Inl] finally_block_def catch_block_def)
    from cl pend all have 1: "closure_inv n ?s'"
      unfolding closure_inv_def by (auto simp: distinct_removeAll)
    from ed edited have 2: "edited_inv n ?s'"
      by (simp add: edited_inv_def)
    from join have 3: "waiting_inv n ?s'"
      by (simp add: waiting_inv_def)
    from tr trace have 4: "trace_inv n ?s'"
      by (rule trace_inv_append) simp
    from 1 2 3 4 show ?thesis
      by (simp add: session_inv_def)
  next
    case (Inr r)
    then have idx: "ef_index r = i"
      by (rule processFrameWithDiff_index)
    let ?p = "pushed n i r s"
    note clp = closure_inv_pushed [OF cl pending idx]
    note edp = edited_inv_pushed [OF cl pending idx]
    show ?thesis
    proof (cases "s_join s = Waiting \<and> removeAll i (s_pending s) = []")
      case True
      then have eq: "settle w frames i response s = after_fanout w n (resolved n ?p)"
        using settle_fulfilled [OF pending Inr] len by simp
      from True wa have no_auto: "\<not> list_ex is_automatic_reassemble (s_trace s)"
        and cover: "set (map ef_index (s_allEditedFrames s)) \<union> set (s_pending s) = {0..<n}"
        and settled: "\<forall>j<n. j \<notin> set (s_pending s) \<longrightarrow> EditFrameSettled j True \<in> set (s_trace s)"
        by (simp_all add: waiting_inv_def)
      from True have only: "set (s_pending s) \<subseteq> {i}"
        by (metis empty_iff empty_set set_removeAll subsetI Diff_iff)
      with pending have only': "set (s_pending s) = {i}"
        by auto
      have 1: "closure_inv n (after_fanout w n (resolved n ?p))"
        using clp by (rule closure_inv_cong) (simp_all add: after_fanout_closure)
      have 2: "edited_inv n (after_fanout w n (resolved n ?p))"
        using edp by (rule edited_inv_cong) (simp add: after_fanout_closure)
      have 3: "waiting_inv n (after_fanout w n (resolved n ?p))"
        by (simp add: waiting_inv_def after_fanout_closure)
      have 4: "trace_inv n (after_fanout w n (resolved n ?p))"
      proof (rule trace_inv_after_fanout)
        show "\<not> list_ex is_automatic_reassemble (s_trace (resolved n ?p))"
          using no_auto by (simp add: list_ex_iff)
        show "\<forall>j<n. EditFrameSettled j True \<in> set (s_trace (resolved n ?p))"
          using settled only by auto
        show "distinct (map ef_index (s_allEditedFrames (resolved n ?p)))"
          using clp by (simp add: closure_inv_def)
        show "set (map ef_index (s_allEditedFrames (resolved n ?p))) = {0..<n}"
          using cover only' idx by auto
      qed
      from 1 2 3 4 show ?thesis
        unfolding eq by (simp add: session_inv_def)
    next
      case False
      then have eq: "settle w frames i response s = ?p"
        using settle_fulfilled [OF pending Inr] len by auto
      have 3: "waiting_inv n ?p"
        unfolding waiting_inv_def
      proof (intro impI conjI allI)
        assume w: "s_join ?p = Waiting"
        then have ws: "s_join s = Waiting" by simp
        with wa have no_auto: "\<not> list_ex is_automatic_reassemble (s_trace s)"
          and cover: "set (map ef_index (s_allEditedFrames s)) \<union> set (s_pending s) = {0..<n}"
          and settled: "\<forall>j<n. j \<notin> set (s_pending s) \<longrightarrow> EditFrameSettled j True \<in> set (s_trace s)"
          by (simp_all add: waiting_inv_def)
        show "\<not> list_ex is_automatic_reassemble (s_trace ?p)"
          using no_auto by (simp add: list_ex_iff)
        show "set (map ef_index (s_allEditedFrames ?p)) \<union> set (s_pending ?p) = {0..<n}"
          using cover pending idx by auto
        fix j assume "j < n" "j \<notin> set (s_pending ?p)"
        then show "EditFrameSettled j True \<in> set (s_trace ?p)"
          using settled by auto
      qed
      have 4: "trace_inv n ?p"
        using tr by (rule trace_inv_append [where T = "[EditFrameSettled i True]"]) simp_all
      from clp edp 3 4 show ?thesis
        unfolding eq by (simp add: session_inv_def)
    qed
  qed
qed

lemma click_closure:
  "s_allEditedFrames (click w a s) = s_allEditedFrames s"
  "s_pending (click w a s) = s_pending s"
  "s_join (click w a s) = s_join s"
  by (auto simp: click_def handleManualAssemble_def Let_def
        split: user_action.splits sum.splits)

lemma click_editedFrames:
  "ui_editedFrames (s_ui (click w a s)) = ui_editedFrames (s_ui s)
   \<or> ui_editedFrames (s_ui (click w a s)) = []"
  by (auto simp: click_def handleManualAssemble_def handleGoToStep_def Let_def
        split: user_action.splits sum.splits)

lemma click_trace:
  "\<exists>T. s_trace (click w a s) = s_trace s @ T
       \<and> (\<forall>c\<in>set T. \<not> is_automatic_reassemble c \<and> \<not> is_analyze_call c
                      \<and> \<not> is_fanout_call c \<and> (\<forall>i. \<not> is_edit_call_of i c))"
  by (auto simp: click_def handleManualAssemble_def Let_def
        split: user_action.splits sum.splits)

lemma session_inv_click:
  assumes inv: "session_inv n s"
  shows "session_inv n (click w a s)"
proof -
  from inv have cl: "closure_inv n s" and ed: "edited_inv n s" and wa: "waiting_inv n s"
    and tr: "trace_inv n s"
    by (simp_all add: session_inv_def)
  from click_trace [of w a s] obtain T where
    T: "s_trace (click w a s) = s_trace s @ T"
    and no_auto: "\<forall>c\<in>set T. \<not> is_automatic_reassemble c"
    by blast
  have 1: "closure_inv n (click w a s)"
    using cl by (rule closure_inv_cong) (simp_all add: click_closure)
  have 2: "edited_inv n (click w a s)"
    using ed by (rule edited_inv_cong) (rule click_editedFrames)
  have 3: "waiting_inv n (click w a s)"
    using wa no_auto unfolding waiting_inv_def T
    by (auto simp: click_closure list_ex_iff)
  have 4: "trace_inv n (click w a s)"
    using tr T no_auto by (rule trace_inv_append)
  from 1 2 3 4 show ?thesis
    by (simp add: session_inv_def)
qed

lemma session_inv_run_events:
  "session_inv n s \<Longrightarrow> length frames = n \<Longrightarrow> session_inv n (run_events w frames evs s)"
proof (induction evs arbitrary: s)
  case Nil
  then show ?case by simp
next
  case (Cons e evs)
  have "session_inv n (step_event w frames e s)"
    using Cons.prems by (cases e) (simp_all add: session_inv_settle session_inv_click)
  with Cons show ?case by simp
qed

lemma session_inv_start:
  "session_inv (length (ui_extractedFrames ui)) (start_pipeline w ui)"
proof (cases "ui_extractedFrames ui")
  case Nil
  then show ?thesis
    by (simp add: start_pipeline_def session_inv_def closure_inv_def edited_inv_def
          waiting_inv_def trace_inv_def)
next
  case (Cons firstFrame remainingFrames)
  let ?n = "length (ui_extractedFrames ui)"
  from Cons have n: "0 < ?n" by simp
  show ?thesis
  proof (cases "firstFrameEditedUrl (w_firstFrame w)")
    case (Inl err)
    with Cons show ?thesis
      by (simp add: start_pipeline_def Let_def session_inv_def closure_inv_def edited_inv_def
            waiting_inv_def trace_inv_def fulfilled_before_automatic_reassembly_def
            finally_block_def catch_block_def)
  next
    case first: (Inr editedUrl)
    show ?thesis
    proof (cases "detailedDiffSpec (w_analyzeDiff w)")
      case (Inl err)
      with Cons first show ?thesis
        by (simp add: start_pipeline_def Let_def session_inv_def closure_inv_def edited_inv_def
              waiting_inv_def trace_inv_def fulfilled_before_automatic_reassembly_def
              finally_block_def catch_block_def)
    next
      case diff: (Inr spec)
      show ?thesis
      proof (cases "1 < ?n")
        case True
        let ?s = "start_pipeline w ui"
        from Cons first diff True have
          all: "map ef_index (s_allEditedFrames ?s) = [0]"
          and pend: "s_pending ?s = [1..<?n]"
          and join: "s_join ?s = Waiting"
          and ed: "map ef_index (ui_editedFrames (s_ui ?s)) = [0]"
          and settled0: "EditFrameSettled 0 True \<in> set (s_trace ?s)"
          and no_auto: "\<forall>c\<in>set (s_trace ?s). \<not> is_automatic_reassemble c"
          by (auto simp: start_pipeline_def Let_def)
        have 1: "closure_inv ?n ?s"
          unfolding closure_inv_def all pend using n by auto
        have 2: "edited_inv ?n ?s"
          unfolding edited_inv_def ed using n by auto
        have 3: "waiting_inv ?n ?s"
          unfolding waiting_inv_def
        proof (intro impI conjI allI)
          show "\<not> list_ex is_automatic_reassemble (s_trace ?s)"
            using no_auto by (simp add: list_ex_iff)
          show "set (map ef_index (s_allEditedFrames ?s)) \<union> set (s_pending ?s) = {0..<?n}"
            unfolding all pend using n by auto
          fix i assume "i < ?n" "i \<notin> set (s_pending ?s)"
          then have "i = 0" unfolding pend by auto
          with settled0 show "EditFrameSettled i True \<in> set (s_trace ?s)" by simp
        qed
        have 4: "trace_inv ?n ?s"
          using no_auto
          by (auto simp: trace_inv_def fulfilled_before_automatic_reassembly_def precedes_none
                filter_empty_conv)
        from 1 2 3 4 show ?thesis by (simp add: session_inv_def)
      next
        case False
        with n have n1: "?n = 1" by linarith
        define s0 where "s0 =
          \<lparr>s_ui = ui\<lparr>ui_isProcessing := True, ui_error := None, ui_currentStep := Editing,
                        ui_editedFrames := [], ui_currentEditingFrame := 0,
                        ui_progress := Some
                          \<lparr>ep_current = 1, ep_total = ?n + 2, ep_currentFrame = Some 0,
                           ep_status = lit ''processing'',
                           ep_message = Some (lit
                             ''Editing first frame to establish change pattern...'')\<rparr>\<rparr>
                   \<lparr>ui_firstFrameEdited := editedUrl,
                    ui_editedFrames :=
                      [\<lparr>ef_index = 0, ef_originalUrl = Some (xf_base64 firstFrame),
                        ef_editedUrl = Some editedUrl, ef_editedBlob = None\<rparr>],
                    ui_progress := Some
                      \<lparr>ep_current = 2, ep_total = ?n + 2,
                       ep_currentFrame = Some 0, ep_status = lit ''processing'',
                       ep_message = Some (lit
                         ''Analyzing changes to create detailed specification...'')\<rparr>\<rparr>
                   \<lparr>ui_detailedDiff := spec\<rparr>,
            s_trace = [EditFrameCall 0 (firstFramePrompt (ui_prompt ui)) [xf_base64 firstFrame],
                       EditFrameSettled 0 True,
                       AnalyzeDiffCall (ui_prompt ui) (xf_base64 firstFrame) editedUrl,
                       AnalyzeDiffSettled True],
            s_allEditedFrames =
              [\<lparr>ef_index = 0, ef_originalUrl = Some (xf_base64 firstFrame),
                ef_editedUrl = Some editedUrl, ef_editedBlob = None\<rparr>],
            s_completedFrames = 0, s_pending = [], s_join = Resolved\<rparr>"
        from Cons first diff False have eq: "start_pipeline w ui = after_fanout w ?n s0"
          by (simp add: start_pipeline_def Let_def s0_def)
        have 1: "closure_inv ?n (after_fanout w ?n s0)"
          by (simp add: closure_inv_def after_fanout_closure s0_def n1)
        have 2: "edited_inv ?n (after_fanout w ?n s0)"
          by (simp add: edited_inv_def after_fanout_closure s0_def n1)
        have 3: "waiting_inv ?n (after_fanout w ?n s0)"
          by (simp add: waiting_inv_def after_fanout_closure s0_def)
        have 4: "trace_inv ?n (after_fanout w ?n s0)"
          by (rule trace_inv_after_fanout) (simp_all add: s0_def n1)
        from 1 2 3 4 show ?thesis
          unfolding eq by (simp add: session_inv_def)
      qed
    qed
  qed
qed

lemma session_inv_handleProcessFrames:
  "session_inv (length (ui_extractedFrames ui)) (handleProcessFrames w ui)"
  unfolding handleProcessFrames_def
  by (rule session_inv_run_events [OF session_inv_start refl])

lemma settle_trace:
  "\<exists>T. s_trace (settle w frames i response s) = s_trace s @ T
       \<and> (\<forall>c\<in>set T. \<not> is_analyze_call c \<and> \<not> is_fanout_call c \<and> (\<forall>j. \<not> is_edit_call_of j c)
                      \<and> (\<forall>fs. c \<noteq> ReassembleCall True fs))"
proof (cases "i \<in> set (s_pending s)")
  case False
  then show ?thesis by (simp add: settle_not_pending)
next
  case pending: True
  show ?thesis
  proof (cases "processFrameWithDiff (frames ! i) i response")
    case (Inl err)
    show ?thesis
      by (simp add: settle_rejected [OF pending Inl])
  next
    case (Inr r)
    let ?p = "resolved (length frames) (pushed (length frames) i r s)"
    from after_fanout_trace [of w "length frames" ?p] obtain T where
      T: "s_trace (after_fanout w (length frames) ?p) = s_trace ?p @ T"
      and calls: "\<forall>c \<in> set T. reassembly_phase_call (editedFramesForReassembly (s_allEditedFrames ?p)) c"
      by blast
    have ok: "\<not> is_analyze_call c \<and> \<not> is_fanout_call c \<and> (\<forall>j. \<not> is_edit_call_of j c)
        \<and> (\<forall>fs. c \<noteq> ReassembleCall True fs)"
      if "reassembly_phase_call fs' c" for c fs'
      using that by (cases c) auto
    show ?thesis
    proof (cases "s_join s = Waiting \<and> removeAll i (s_pending s) = []")
      case True
      then have "s_trace (settle w frames i response s)
          = s_trace s @ (EditFrameSettled i True # T)"
        using settle_fulfilled [OF pending Inr] T by simp
      moreover have "\<forall>c\<in>set (EditFrameSettled i True # T).
          \<not> is_analyze_call c \<and> \<not> is_fanout_call c \<and> (\<forall>j. \<not> is_edit_call_of j c)
          \<and> (\<forall>fs. c \<noteq> ReassembleCall True fs)"
        using calls ok by auto
      ultimately show ?thesis by blast
    next
      case False
      then show ?thesis
        using settle_fulfilled [OF pending Inr] by auto
    qed
  qed
qed

lemma click_trace_manual:
  "\<exists>T. s_trace (click w a s) = s_trace s @ T
       \<and> (\<forall>c\<in>set T. \<not> is_analyze_call c \<and> \<not> is_fanout_call c \<and> (\<forall>j. \<not> is_edit_call_of j c)
                      \<and> \<not> is_automatic_reassemble c)"
  using click_trace [of w a s] by blast

lemma run_events_trace:
  "\<exists>T. s_trace (run_events w frames evs s) = s_trace s @ T
       \<and> (\<forall>c\<in>set T. \<not> is_analyze_call c \<and> \<not> is_fanout_call c \<and> (\<forall>j. \<not> is_edit_call_of j c))"
proof (induction evs arbitrary: s)
  case Nil
  then show ?case by simp
next
  case (Cons e evs)
  have "\<exists>T. s_trace (step_event w frames e s) = s_trace s @ T
       \<and> (\<forall>c\<in>set T. \<not> is_analyze_call c \<and> \<not> is_fanout_call c \<and> (\<forall>j. \<not> is_edit_call_of j c))"
  proof (cases e)
    case (Settle i response)
    with settle_trace [of w frames i response s] show ?thesis by auto
  next
    case (Click a)
    with click_trace [of w a s] show ?thesis by auto
  qed
  then obtain T1 where T1: "s_trace (step_event w frames e s) = s_trace s @ T1"
    "\<forall>c\<in>set T1. \<not> is_analyze_call c \<and> \<not> is_fanout_call c \<and> (\<forall>j. \<not> is_edit_call_of j c)"
    by blast
  from Cons.IH [of "step_event w frames e s"] obtain T2 where
    T2: "s_trace (run_events w frames evs (step_event w frames e s))
           = s_trace (step_event w frames e s) @ T2"
    "\<forall>c\<in>set T2. \<not> is_analyze_call c \<and> \<not> is_fanout_call c \<and> (\<forall>j. \<not> is_edit_call_of j c)"
    by blast
  have "s_trace (run_events w frames (e # evs) s) = s_trace s @ (T1 @ T2)"
    using T1(1) T2(1) by simp
  moreover have "\<forall>c\<in>set (T1 @ T2).
      \<not> is_analyze_call c \<and> \<not> is_fanout_call c \<and> (\<forall>j. \<not> is_edit_call_of j c)"
    using T1(2) T2(2) by auto
  ultimately show ?case by blast
qed

lemma start_pipeline_order:
  "precedes (\<lambda>c. c = EditFrameSettled 0 True) is_analyze_call (s_trace (start_pipeline w ui))
   \<and> precedes (\<lambda>c. c = AnalyzeDiffSettled True) is_fanout_call (s_trace (start_pipeline w ui))
   \<and> (\<forall>i. dispatched i (s_trace (start_pipeline w ui)) \<longrightarrow> i < length (ui_extractedFrames ui))"
proof (cases "ui_extractedFrames ui")
  case Nil
  then show ?thesis
    by (simp add: start_pipeline_def dispatched_def)
next
  case (Cons firstFrame remainingFrames)
  let ?n = "length (ui_extractedFrames ui)"
  show ?thesis
  proof (cases "firstFrameEditedUrl (w_firstFrame w)")
    case (Inl err)
    with Cons show ?thesis
      by (simp add: start_pipeline_def Let_def dispatched_def)
  next
    case first: (Inr editedUrl)
    show ?thesis
    proof (cases "detailedDiffSpec (w_analyzeDiff w)")
      case (Inl err)
      with Cons first show ?thesis
        by (simp add: start_pipeline_def Let_def dispatched_def)
    next
      case diff: (Inr spec)
      show ?thesis
      proof (cases "1 < ?n")
        case True
        have disp: "list_ex (is_edit_call_of i) (map (\<lambda>i. EditFrameCall i p (u i)) xs) \<longleftrightarrow> i \<in> set xs"
          for i p u xs
          by (induction xs) auto
        from Cons first diff True show ?thesis
          by (auto simp: start_pipeline_def Let_def dispatched_def precedes_append disp)
      next
        case False
        obtain s0 where eq: "start_pipeline w ui = after_fanout w ?n s0"
          and s0: "s_trace s0 =
             [EditFrameCall 0 (firstFramePrompt (ui_prompt ui)) [xf_base64 firstFrame],
              EditFrameSettled 0 True,
              AnalyzeDiffCall (ui_prompt ui) (xf_base64 firstFrame) editedUrl,
              AnalyzeDiffSettled True]"
          using Cons first diff False by (simp add: start_pipeline_def Let_def)
        from after_fanout_trace [of w ?n s0] obtain T where
          T: "s_trace (after_fanout w ?n s0) = s_trace s0 @ T"
          and calls: "\<forall>c \<in> set T. reassembly_phase_call (editedFramesForReassembly (s_allEditedFrames s0)) c"
          by blast
        have ok: "\<not> is_analyze_call c \<and> \<not> is_fanout_call c \<and> (\<forall>j. \<not> is_edit_call_of j c)"
          if "reassembly_phase_call fs' c" for c fs'
          using that by (cases c) auto
        with calls have none: "\<forall>c\<in>set T. \<not> is_analyze_call c \<and> \<not> is_fanout_call c
            \<and> (\<forall>j. \<not> is_edit_call_of j c)"
          by blast
        then have "precedes P is_analyze_call T" "precedes P' is_fanout_call T"
          "\<not> list_ex (is_edit_call_of i) T" for P P' i
          by (simp_all add: precedes_none list_ex_iff)
        then show ?thesis
          using Cons unfolding eq T s0 dispatched_def
          by (simp add: precedes_append)
      qed
    qed
  qed
qed

lemma reassembly_phase_call_not_settled:
  "reassembly_phase_call fs c \<Longrightarrow> c \<noteq> EditFrameSettled i ok"
  by (cases c) auto

lemma click_trace_no_settled:
  "\<exists>T. s_trace (click w a s) = s_trace s @ T \<and> (\<forall>c\<in>set T. \<forall>i ok. c \<noteq> EditFrameSettled i ok)"
  by (auto simp: click_def handleManualAssemble_def Let_def
        split: user_action.splits sum.splits)

lemma handed_inv_after_fanout:
  assumes "\<not> list_ex is_automatic_reassemble (s_trace s)" and "s_pending s = []"
  shows "handed_inv (after_fanout w n s)"
proof -
  from after_fanout_trace [of w n s] obtain T where
    T: "s_trace (after_fanout w n s) = s_trace s @ T"
    and calls: "\<forall>c \<in> set T. reassembly_phase_call (editedFramesForReassembly (s_allEditedFrames s)) c"
    by blast
  have "fs = editedFramesForReassembly (s_allEditedFrames s)"
    if "ReassembleCall False fs \<in> set (s_trace (after_fanout w n s))" for fs
  proof -
    from that assms(1) have "ReassembleCall False fs \<in> set T"
      unfolding T by (auto simp: list_ex_iff)
    with calls show ?thesis
      using reassembly_phase_call_automatic by blast
  qed
  with assms(2) show ?thesis
    by (simp add: handed_inv_def after_fanout_closure)
qed

lemma handed_inv_settle:
  assumes inv: "handed_inv s" and wa: "waiting_inv n s" and len: "length frames = n"
  shows "handed_inv (settle w frames i response s)"
proof (cases "i \<in> set (s_pending s)")
  case False
  with inv show ?thesis by (simp add: settle_not_pending)
next
  case pending: True
  with inv have none: "\<forall>fs. ReassembleCall False fs \<notin> set (s_trace s)"
    by (auto simp: handed_inv_def)
  show ?thesis
  proof (cases "processFrameWithDiff (frames ! i) i response")
    case (Inl err)
    from none show ?thesis
      by (auto simp: settle_rejected [OF pending Inl] handed_inv_def)
  next
    case (Inr r)
    show ?thesis
    proof (cases "s_join s = Waiting \<and> removeAll i (s_pending s) = []")
      case True
      with wa have "\<not> list_ex is_automatic_reassemble (s_trace s)"
        by (simp add: waiting_inv_def)
      then have "\<not> list_ex is_automatic_reassemble (s_trace (resolved n (pushed n i r s)))"
        by (simp add: list_ex_iff)
      moreover from True have "s_pending (resolved n (pushed n i r s)) = []"
        by simp
      ultimately have "handed_inv (after_fanout w n (resolved n (pushed n i r s)))"
        by (rule handed_inv_after_fanout)
      with True show ?thesis
        using settle_fulfilled [OF pending Inr] len by simp
    next
      case False
      with none show ?thesis
        using settle_fulfilled [OF pending Inr] by (auto simp: handed_inv_def)
    qed
  qed
qed

lemma handed_inv_click:
  assumes "handed_inv s"
  shows "handed_inv (click w a s)"
proof -
  from click_trace [of w a s] obtain T where
    T: "s_trace (click w a s) = s_trace s @ T"
    and no_auto: "\<forall>c\<in>set T. \<not> is_automatic_reassemble c"
    by blast
  have "ReassembleCall False fs \<notin> set T" for fs
    using no_auto by force
  with assms show ?thesis
    by (auto simp: handed_inv_def T click_closure)
qed

lemma fulfilled_inv_settle:
  assumes inv: "fulfilled_inv s"
  shows "fulfilled_inv (settle w frames i response s)"
proof (cases "i \<in> set (s_pending s)")
  case False
  with inv show ?thesis by (simp add: settle_not_pending)
next
  case pending: True
  show ?thesis
  proof (cases "processFrameWithDiff (frames ! i) i response")
    case (Inl err)
    from inv show ?thesis
      by (auto simp: settle_rejected [OF pending Inl] fulfilled_inv_def finally_block_def)
  next
    case (Inr r)
    then have idx: "ef_index r = i"
      by (rule processFrameWithDiff_index)
    let ?n = "length frames"
    have p: "fulfilled_inv (pushed ?n i r s)"
      using inv idx by (auto simp: fulfilled_inv_def)
    show ?thesis
    proof (cases "s_join s = Waiting \<and> removeAll i (s_pending s) = []")
      case True
      let ?p = "resolved ?n (pushed ?n i r s)"
      from after_fanout_trace [of w ?n ?p] obtain T where
        T: "s_trace (after_fanout w ?n ?p) = s_trace ?p @ T"
        and calls: "\<forall>c \<in> set T. reassembly_phase_call (editedFramesForReassembly (s_allEditedFrames ?p)) c"
        by blast
      from calls have "EditFrameSettled j True \<notin> set T" for j
        using reassembly_phase_call_not_settled by blast
      with p True have "fulfilled_inv (after_fanout w ?n ?p)"
        by (auto simp: fulfilled_inv_def T after_fanout_closure)
      with True show ?thesis
        using settle_fulfilled [OF pending Inr] by simp
    next
      case False
      with p show ?thesis
        using settle_fulfilled [OF pending Inr] by auto
    qed
  qed
qed

lemma fulfilled_inv_click:
  assumes "fulfilled_inv s"
  shows "fulfilled_inv (click w a s)"
proof -
  from click_trace_no_settled [of w a s] obtain T where
    T: "s_trace (click w a s) = s_trace s @ T"
    and none: "\<forall>c\<in>set T. \<forall>i ok. c \<noteq> EditFrameSettled i ok"
    by blast
  have "EditFrameSettled j True \<notin> set T" for j
    using none by blast
  with assms show ?thesis
    by (auto simp: fulfilled_inv_def T click_closure)
qed

lemma more_inv_run_events:
  "handed_inv s \<Longrightarrow> fulfilled_inv s \<Longrightarrow> session_inv n s \<Longrightarrow> length frames = n \<Longrightarrow>
   handed_inv (run_events w frames evs s) \<and> fulfilled_inv (run_events w frames evs s)"
proof (induction evs arbitrary: s)
  case Nil
  then show ?case by simp
next
  case (Cons e evs)
  from Cons.prems(3) have wa: "waiting_inv n s"
    by (simp add: session_inv_def)
  have 1: "handed_inv (step_event w frames e s)"
    using Cons.prems wa by (cases e) (simp_all add: handed_inv_settle handed_inv_click)
  have 2: "fulfilled_inv (step_event w frames e s)"
    using Cons.prems by (cases e) (simp_all add: fulfilled_inv_settle fulfilled_inv_click)
  have 3: "session_inv n (step_event w frames e s)"
    using Cons.prems by (cases e) (simp_all add: session_inv_settle session_inv_click)
  from Cons.IH [OF 1 2 3 Cons.prems(4)] show ?case by simp
qed

lemma more_inv_start:
  "handed_inv (start_pipeline w ui) \<and> fulfilled_inv (start_pipeline w ui)"
proof (cases "ui_extractedFrames ui")
  case Nil
  then show ?thesis
    by (simp add: start_pipeline_def handed_inv_def fulfilled_inv_def)
next
  case (Cons firstFrame remainingFrames)
  let ?n = "length (ui_extractedFrames ui)"
  show ?thesis
  proof (cases "firstFrameEditedUrl (w_firstFrame w)")
    case (Inl err)
    with Cons show ?thesis
      by (simp add: start_pipeline_def Let_def handed_inv_def fulfilled_inv_def)
  next
    case first: (Inr editedUrl)
    show ?thesis
    proof (cases "detailedDiffSpec (w_analyzeDiff w)")
      case (Inl err)
      with Cons first show ?thesis
        by (simp add: start_pipeline_def Let_def handed_inv_def fulfilled_inv_def)
    next
      case diff: (Inr spec)
      show ?thesis
      proof (cases "1 < ?n")
        case True
        with Cons first diff show ?thesis
          by (auto simp: start_pipeline_def Let_def handed_inv_def fulfilled_inv_def)
      next
        case False
        obtain s0 where eq: "start_pipeline w ui = after_fanout w ?n s0"
          and tr: "s_trace s0 =
             [EditFrameCall 0 (firstFramePrompt (ui_prompt ui)) [xf_base64 firstFrame],
              EditFrameSettled 0 True,
              AnalyzeDiffCall (ui_prompt ui) (xf_base64 firstFrame) editedUrl,
              AnalyzeDiffSettled True]"
          and all: "map ef_index (s_allEditedFrames s0) = [0]"
          and pend: "s_pending s0 = []"
          and join: "s_join s0 = Resolved"
          using Cons first diff False by (simp add: start_pipeline_def Let_def)
        have 1: "handed_inv (after_fanout w ?n s0)"
          by (rule handed_inv_after_fanout) (simp_all add: tr pend)
        from after_fanout_trace [of w ?n s0] obtain T where
          T: "s_trace (after_fanout w ?n s0) = s_trace s0 @ T"
          and calls: "\<forall>c \<in> set T. reassembly_phase_call (editedFramesForReassembly (s_allEditedFrames s0)) c"
          by blast
        from calls have "EditFrameSettled j True \<notin> set T" for j
          using reassembly_phase_call_not_settled by blast
        then have 2: "fulfilled_inv (after_fanout w ?n s0)"
          unfolding fulfilled_inv_def T after_fanout_closure all tr by auto
        from 1 2 show ?thesis unfolding eq by simp
      qed
    qed
  qed
qed

lemma more_inv_handleProcessFrames:
  "handed_inv (handleProcessFrames w ui) \<and> fulfilled_inv (handleProcessFrames w ui)"
  unfolding handleProcessFrames_def
  using more_inv_start [of w ui] session_inv_start [of ui w]
  by (intro more_inv_run_events) simp_all

text \<open>
  C9. At every moment of a session on \<open>n\<close> extracted frames, and so when the fan-out
  completes, the indices of the edited frames (in the local array \<open>allEditedFrames\<close>
  and in the React state) are below \<open>n\<close> and no index occurs twice, whatever the
  services answer, in whatever order the edit calls settle, and whatever the user
  clicks among the controls of the session. The sequential editor returns the indices of
  its input, position by position.
\<close>

theorem edited_indices_unique_and_in_range:
  "distinct (map ef_index (s_allEditedFrames (handleProcessFrames w ui)))
   \<and> set (map ef_index (s_allEditedFrames (handleProcessFrames w ui)))
        \<subseteq> {0..<length (ui_extractedFrames ui)}
   \<and> (ui_extractedFrames ui \<noteq> [] \<longrightarrow>
         distinct (map ef_index (ui_editedFrames (s_ui (handleProcessFrames w ui))))
         \<and> set (map ef_index (ui_editedFrames (s_ui (handleProcessFrames w ui))))
              \<subseteq> {0..<length (ui_extractedFrames ui)})
   \<and> map ef_index (fst (editFrames edit_api download frames prompt fmt)) = map xf_index frames"
proof -
  from session_inv_handleProcessFrames [of ui w]
  have "closure_inv (length (ui_extractedFrames ui)) (handleProcessFrames w ui)"
    and "edited_inv (length (ui_extractedFrames ui)) (handleProcessFrames w ui)"
    by (simp_all add: session_inv_def)
  moreover have "map ef_index (fst (editFrames edit_api download frames prompt fmt))
      = map xf_index frames"
    by (simp add: editFrames_def case_prod_beta editFrames_loop_indices)
  ultimately show ?thesis
    by (simp add: closure_inv_def edited_inv_def)
qed

lemma example_session_out_of_order:
  "session_summary (handleProcessFrames
      (example_world [Settle 2 (edit_ok 2), Settle 1 (edit_ok 1)]
         (\<lambda>k fs. Inl (JsError (lit ''Failed to reassemble video''))))
      (example_ui 3))
   = (Resolved, Editing, False, False, [0, 2, 1], True, 2)"
  by code_simp

theorem edited_indices_unique_and_in_range_witness:
  "ui_extractedFrames (example_ui 3) \<noteq> []
   \<and> map ef_index (ui_editedFrames (s_ui (handleProcessFrames
        (example_world [Settle 2 (edit_ok 2), Settle 1 (edit_ok 1)]
           (\<lambda>k fs. Inl (JsError (lit ''Failed to reassemble video''))))
        (example_ui 3)))) = [0, 2, 1]
   \<and> distinct (map ef_index (ui_editedFrames (s_ui (handleProcessFrames
        (example_world [Settle 2 (edit_ok 2), Settle 1 (edit_ok 1)]
           (\<lambda>k fs. Inl (JsError (lit ''Failed to reassemble video''))))
        (example_ui 3)))))
   \<and> set (map ef_index (ui_editedFrames (s_ui (handleProcessFrames
        (example_world [Settle 2 (edit_ok 2), Settle 1 (edit_ok 1)]
           (\<lambda>k fs. Inl (JsError (lit ''Failed to reassemble video''))))
        (example_ui 3))))) \<subseteq> {0..<3}"
proof -
  let ?w = "example_world [Settle 2 (edit_ok 2), Settle 1 (edit_ok 1)]
              (\<lambda>k fs. Inl (JsError (lit ''Failed to reassemble video'')))"
  have frames: "ui_extractedFrames (example_ui 3) \<noteq> []"
    by (simp add: example_ui_def)
  have len: "length (ui_extractedFrames (example_ui 3)) = 3"
    by (simp add: example_ui_def)
  from edited_indices_unique_and_in_range [of ?w "example_ui 3"] frames
  have "distinct (map ef_index (ui_editedFrames (s_ui (handleProcessFrames ?w (example_ui 3)))))
      \<and> set (map ef_index (ui_editedFrames (s_ui (handleProcessFrames ?w (example_ui 3)))))
           \<subseteq> {0..<length (ui_extractedFrames (example_ui 3))}"
    by blast
  moreover from example_session_out_of_order
  have "map ef_index (ui_editedFrames (s_ui (handleProcessFrames ?w (example_ui 3)))) = [0, 2, 1]"
    by (simp add: session_summary_def)
  ultimately show ?thesis
    using frames unfolding len by blast
qed

lemma processFrameWithDiff_url:
  "processFrameWithDiff frame i response = Inr result \<Longrightarrow> ef_editedUrl result \<noteq> None"
  by (auto simp: processFrameWithDiff_def split: edit_api_result.splits if_splits sum.splits)

lemma urls_inv_settle:
  assumes "urls_inv s"
  shows "urls_inv (settle w frames i response s)"
proof (cases "i \<in> set (s_pending s)")
  case False
  with assms show ?thesis by (simp add: settle_not_pending)
next
  case pending: True
  show ?thesis
  proof (cases "processFrameWithDiff (frames ! i) i response")
    case (Inl err)
    from assms show ?thesis
      by (auto simp: settle_rejected [OF pending Inl] urls_inv_def)
  next
    case (Inr r)
    with assms processFrameWithDiff_url [OF Inr] show ?thesis
      using settle_fulfilled [OF pending Inr]
      by (auto simp: urls_inv_def after_fanout_closure)
  qed
qed

lemma urls_inv_run_events:
  "urls_inv s \<Longrightarrow> urls_inv (run_events w frames evs s)"
proof (induction evs arbitrary: s)
  case Nil
  then show ?case by simp
next
  case (Cons e evs)
  have "urls_inv (step_event w frames e s)"
  proof (cases e)
    case (Settle i response)
    with Cons.prems show ?thesis by (simp add: urls_inv_settle)
  next
    case (Click a)
    with Cons.prems show ?thesis by (simp add: urls_inv_def click_closure)
  qed
  with Cons.IH show ?case by simp
qed

lemma urls_inv_start: "urls_inv (start_pipeline w ui)"
  by (auto simp: start_pipeline_def Let_def urls_inv_def after_fanout_closure
        split: list.splits sum.splits)

lemma urls_inv_handleProcessFrames: "urls_inv (handleProcessFrames w ui)"
  unfolding handleProcessFrames_def by (rule urls_inv_run_events [OF urls_inv_start])

lemma answer_of_append:
  "answer_of (pre @ events) i
     = (case answer_of pre i of Some response \<Rightarrow> Some response | None \<Rightarrow> answer_of events i)"
  by (induction pre i rule: answer_of.induct) simp_all

lemma answer_kept:
  "(if k = 0 then Some a else answer_of pre k) = Some response \<Longrightarrow>
   (if k = 0 then Some a else answer_of (pre @ events) k) = Some response"
  by (simp add: answer_of_append split: if_splits)

lemma processFrameWithDiff_answer:
  "processFrameWithDiff frame i response = Inr result \<Longrightarrow>
   \<exists>st u us. response = EditApiResponse True st (u # us) \<and> ef_editedUrl result = Some u"
  by (auto simp: processFrameWithDiff_def first_image_url_def
        split: edit_api_result.splits if_splits sum.splits list.splits)

lemma firstFrameEditedUrl_answer:
  "firstFrameEditedUrl response = Inr u \<Longrightarrow> \<exists>st us. response = EditApiResponse True st (u # us)"
  by (auto simp: firstFrameEditedUrl_def first_image_url_def
        split: edit_api_result.splits if_splits list.splits)

lemma answers_inv_settle:
  assumes inv: "answers_inv w pre s"
  shows "answers_inv w (pre @ [Settle i response]) (settle w frames i response s)"
proof -
  let ?pre' = "pre @ [Settle i response]"
  from inv have zero: "0 \<notin> set (s_pending s)"
    and none: "\<forall>j\<in>set (s_pending s). answer_of pre j = None"
    and tied: "\<forall>frame\<in>set (s_allEditedFrames s). \<exists>st u us.
            (if ef_index frame = 0 then Some (w_firstFrame w)
             else answer_of pre (ef_index frame))
              = Some (EditApiResponse True st (u # us))
            \<and> ef_editedUrl frame = Some u"
    by (simp_all add: answers_inv_def)
  have tied': "\<forall>frame\<in>set (s_allEditedFrames s). \<exists>st u us.
            (if ef_index frame = 0 then Some (w_firstFrame w)
             else answer_of ?pre' (ef_index frame))
              = Some (EditApiResponse True st (u # us))
            \<and> ef_editedUrl frame = Some u"
  proof
    fix frame
    assume "frame \<in> set (s_allEditedFrames s)"
    with tied obtain st u us where
      a: "(if ef_index frame = 0 then Some (w_firstFrame w)
           else answer_of pre (ef_index frame)) = Some (EditApiResponse True st (u # us))"
      and b: "ef_editedUrl frame = Some u"
      by blast
    from answer_kept [OF a] b
    show "\<exists>st u us.
            (if ef_index frame = 0 then Some (w_firstFrame w)
             else answer_of ?pre' (ef_index frame))
              = Some (EditApiResponse True st (u # us))
            \<and> ef_editedUrl frame = Some u"
      by blast
  qed
  have none': "answer_of ?pre' j = None" if "j \<in> set (s_pending s)" and "j \<noteq> i" for j
    using that none by (simp add: answer_of_append)
  show ?thesis
  proof (cases "i \<in> set (s_pending s)")
    case False
    with none' have "\<forall>j\<in>set (s_pending s). answer_of ?pre' j = None"
      by metis
    with zero tied' False show ?thesis
      by (simp add: settle_not_pending answers_inv_def)
  next
    case pending: True
    have rest: "\<forall>j\<in>set (removeAll i (s_pending s)). answer_of ?pre' j = None"
      using none' by simp
    show ?thesis
    proof (cases "processFrameWithDiff (frames ! i) i response")
      case (Inl err)
      from zero tied' rest show ?thesis
        by (simp add: settle_rejected [OF pending Inl] answers_inv_def)
    next
      case (Inr r)
      from processFrameWithDiff_answer [OF Inr] obtain st u us where
        resp: "response = EditApiResponse True st (u # us)" and url: "ef_editedUrl r = Some u"
        by blast
      from processFrameWithDiff_index [OF Inr] have idx: "ef_index r = i" .
      from pending zero have i0: "i \<noteq> 0"
        by metis
      from pending none have "answer_of pre i = None"
        by blast
      then have "answer_of ?pre' i = Some response"
        by (simp add: answer_of_append)
      with resp url idx i0 have new: "\<exists>st u us.
            (if ef_index r = 0 then Some (w_firstFrame w)
             else answer_of ?pre' (ef_index r))
              = Some (EditApiResponse True st (u # us))
            \<and> ef_editedUrl r = Some u"
        by simp
      have closure: "s_pending (settle w frames i response s) = removeAll i (s_pending s)"
        "s_allEditedFrames (settle w frames i response s) = s_allEditedFrames s @ [r]"
        by (simp_all add: settle_fulfilled [OF pending Inr] after_fanout_closure
              pushed_def resolved_def)
      from zero tied' new rest show ?thesis
        unfolding answers_inv_def closure by auto
    qed
  qed
qed

lemma answers_inv_click:
  assumes "answers_inv w pre s"
  shows "answers_inv w (pre @ [Click a]) (click w a s)"
proof -
  have eq: "answer_of (pre @ [Click a]) = answer_of pre"
    by (rule ext) (simp add: answer_of_append split: option.splits)
  from assms show ?thesis
    unfolding answers_inv_def click_closure eq .
qed

lemma answers_inv_run_events:
  "answers_inv w pre s \<Longrightarrow> answers_inv w (pre @ evs) (run_events w frames evs s)"
proof (induction evs arbitrary: pre s)
  case Nil
  then show ?case by simp
next
  case (Cons e evs)
  have "answers_inv w (pre @ [e]) (step_event w frames e s)"
    using Cons.prems by (cases e) (simp_all add: answers_inv_settle answers_inv_click)
  from Cons.IH [OF this] show ?case
    by simp
qed

lemma answers_inv_start: "answers_inv w [] (start_pipeline w ui)"
  by (auto simp: start_pipeline_def Let_def answers_inv_def after_fanout_closure
        dest!: firstFrameEditedUrl_answer split: list.splits sum.splits)

lemma answers_inv_handleProcessFrames:
  "answers_inv w (w_events w) (handleProcessFrames w ui)"
  unfolding handleProcessFrames_def
  using answers_inv_run_events [OF answers_inv_start, where evs = "w_events w"] by simp

lemma reassembleVideo_ignores_index:
  assumes "map rf_base64 fs = map rf_base64 fs'" and "map rf_url fs = map rf_url fs'"
  shows "reassembleVideo env fs0 fs fps fmt = reassembleVideo env fs0 fs' fps fmt"
proof -
  from assms have "length fs = length fs'"
    by (metis length_map)
  then have "map (\<lambda>frame. \<lparr>fd_base64 = rf_base64 frame, fd_url = rf_url frame\<rparr>) fs
      = map (\<lambda>frame. \<lparr>fd_base64 = rf_base64 frame, fd_url = rf_url frame\<rparr>) fs'"
    using assms
  proof (induction fs fs' rule: list_induct2)
    case Nil
    then show ?case by simp
  next
    case (Cons x xs y ys)
    then show ?case by simp
  qed
  then show ?thesis
    by (simp add: reassembleVideo_def)
qed

lemma processFrames_names:
  "processFrames env d i body fs0 = (fs1, written, None) \<Longrightarrow>
   map fst written = map frameFilename [i..<i + length body]"
proof (induction body arbitrary: i fs0 fs1 written)
  case Nil
  then show ?case by simp
next
  case (Cons frame frames)
  from Cons.prems obtain buffer fs' rest where
    wr: "writeFile fs0 (join d (frameFilename i)) buffer = Inr fs'"
    and rec: "processFrames env d (Suc i) frames fs' = (fs1, rest, None)"
    and w: "written = (frameFilename i, buffer) # rest"
    by (auto split: sum.splits prod.splits)
  from Cons.IH [OF rec] have "map fst rest = map frameFilename [Suc i..<Suc i + length frames]" .
  with w show ?case
    by (simp add: upt_conv_Cons del: upt_Suc)
qed

text \<open>
  C8, as stated, fails. Three frames are extracted and the edit calls of frames 1 and 2
  are dispatched; the call of frame 1 is rejected, which rejects \<open>Promise.all\<close> at once
  and ends the automatic run while the call of frame 2 is still in flight. The user
  opens the editing step and presses "Assemble Video Now": a reassembly begins, and the
  dispatched call of frame 2 has not settled.
\<close>

theorem manual_assembly_before_edit_settles:
  "dispatched 2 (s_trace (handleProcessFrames
      (example_world [Settle 1 edit_failed, Click (GoToStep Editing), Click ManualAssemble]
         (\<lambda>k fs. Inr [9]))
      (example_ui 3)))
   \<and> \<not> settled_before_reassembly 2 (s_trace (handleProcessFrames
      (example_world [Settle 1 edit_failed, Click (GoToStep Editing), Click ManualAssemble]
         (\<lambda>k fs. Inr [9]))
      (example_ui 3)))"
  by code_simp

text \<open>
  C8, amended. In every session the edit of the reference frame is fulfilled before the
  analysis call is made, the analysis is fulfilled before any call of the fan-out is
  dispatched, and an automatic reassembly call is made only after every dispatched edit
  call was fulfilled. (A manual assembly is not held back by calls in flight.)
\<close>

theorem pipeline_order:
  "precedes (\<lambda>c. c = EditFrameSettled 0 True) is_analyze_call
     (s_trace (handleProcessFrames w ui))
   \<and> precedes (\<lambda>c. c = AnalyzeDiffSettled True) is_fanout_call
       (s_trace (handleProcessFrames w ui))
   \<and> (\<forall>i. dispatched i (s_trace (handleProcessFrames w ui)) \<longrightarrow>
          fulfilled_before_automatic_reassembly i (s_trace (handleProcessFrames w ui)))"
proof -
  let ?n = "length (ui_extractedFrames ui)"
  let ?start = "s_trace (start_pipeline w ui)"
  from run_events_trace [of w "ui_extractedFrames ui" "w_events w" "start_pipeline w ui"]
  obtain T where
    T: "s_trace (handleProcessFrames w ui) = ?start @ T"
    and later: "\<forall>c\<in>set T. \<not> is_analyze_call c \<and> \<not> is_fanout_call c
                  \<and> (\<forall>j. \<not> is_edit_call_of j c)"
    unfolding handleProcessFrames_def by blast
  from start_pipeline_order [of w ui] have
    a0: "precedes (\<lambda>c. c = EditFrameSettled 0 True) is_analyze_call ?start"
    and b0: "precedes (\<lambda>c. c = AnalyzeDiffSettled True) is_fanout_call ?start"
    and c0: "\<forall>i. dispatched i ?start \<longrightarrow> i < ?n"
    by blast+
  from later have "precedes (\<lambda>c. c = EditFrameSettled 0 True) is_analyze_call T"
    and "precedes (\<lambda>c. c = AnalyzeDiffSettled True) is_fanout_call T"
    by (simp_all add: precedes_none)
  with a0 b0 have a: "precedes (\<lambda>c. c = EditFrameSettled 0 True) is_analyze_call
        (s_trace (handleProcessFrames w ui))"
    and b: "precedes (\<lambda>c. c = AnalyzeDiffSettled True) is_fanout_call
        (s_trace (handleProcessFrames w ui))"
    unfolding T precedes_append by simp_all
  have c: "fulfilled_before_automatic_reassembly i (s_trace (handleProcessFrames w ui))"
    if "dispatched i (s_trace (handleProcessFrames w ui))" for i
  proof -
    from that later have "dispatched i ?start"
      unfolding T dispatched_def by (auto simp: list_ex_iff)
    with c0 have "i < ?n" by blast
    with session_inv_handleProcessFrames [of ui w] show ?thesis
      by (simp add: session_inv_def trace_inv_def)
  qed
  from a b c show ?thesis by blast
qed

lemma example_session_dispatched:
  "dispatched 1 (s_trace (handleProcessFrames
      (example_world [Settle 2 (edit_ok 2), Settle 1 (edit_ok 1)] (\<lambda>k fs. Inr [9]))
      (example_ui 3)))
   \<and> list_ex is_automatic_reassemble (s_trace (handleProcessFrames
      (example_world [Settle 2 (edit_ok 2), Settle 1 (edit_ok 1)] (\<lambda>k fs. Inr [9]))
      (example_ui 3)))"
  by code_simp

theorem pipeline_order_witness:
  "dispatched 1 (s_trace (handleProcessFrames
      (example_world [Settle 2 (edit_ok 2), Settle 1 (edit_ok 1)] (\<lambda>k fs. Inr [9]))
      (example_ui 3)))
   \<and> list_ex is_automatic_reassemble (s_trace (handleProcessFrames
      (example_world [Settle 2 (edit_ok 2), Settle 1 (edit_ok 1)] (\<lambda>k fs. Inr [9]))
      (example_ui 3)))
   \<and> fulfilled_before_automatic_reassembly 1 (s_trace (handleProcessFrames
      (example_world [Settle 2 (edit_ok 2), Settle 1 (edit_ok 1)] (\<lambda>k fs. Inr [9]))
      (example_ui 3)))"
  using example_session_dispatched
        pipeline_order [of "example_world [Settle 2 (edit_ok 2), Settle 1 (edit_ok 1)]
                              (\<lambda>k fs. Inr [9])" "example_ui 3"]
  by blast

text \<open>
  C1, as stated, fails. After a fan-out on three frames in which the call of frame 1
  was rejected, the manual assembly hands the frames with the indices 0 and 2 to the
  reassembly. The reassembly does not fail: the request body carries no index, the route
  writes the two images as \<open>frame_0000.png\<close> and \<open>frame_0001.png\<close>, and the video is
  returned.
\<close>

theorem reassembly_accepts_missing_index:
  "ReassembleCall True
      [\<lparr>rf_index = 0, rf_base64 = None, rf_url = Some (lit ''https://cdn/edited-0'')\<rparr>,
       \<lparr>rf_index = 2, rf_base64 = None, rf_url = Some (lit ''https://cdn/edited-2'')\<rparr>]
     \<in> set (s_trace (handleProcessFrames
           (example_world
              [Settle 1 edit_failed, Settle 2 (edit_ok 2), Click (GoToStep Editing),
               Click ManualAssemble]
              (\<lambda>k fs. reassembleVideo example_env example_fs fs 30 (lit ''mp4'')))
           (example_ui 3)))
   \<and> reassembleVideo example_env example_fs
       [\<lparr>rf_index = 0, rf_base64 = None, rf_url = Some (lit ''https://cdn/edited-0'')\<rparr>,
        \<lparr>rf_index = 2, rf_base64 = None, rf_url = Some (lit ''https://cdn/edited-2'')\<rparr>]
       30 (lit ''mp4'') = Inr [9, 9]
   \<and> fst (snd (processFrames example_env [lit ''tmp'', lit ''video_reassemble_s1''] 0
         [\<lparr>fd_base64 = None, fd_url = Some (lit ''https://cdn/edited-0'')\<rparr>,
          \<lparr>fd_base64 = None, fd_url = Some (lit ''https://cdn/edited-2'')\<rparr>]
         (mkdir_recursive example_fs [lit ''tmp'', lit ''video_reassemble_s1''])))
       = [(lit ''frame_0000.png'', [7]), (lit ''frame_0001.png'', [7])]
   \<and> ui_currentStep (s_ui (handleProcessFrames
           (example_world
              [Settle 1 edit_failed, Settle 2 (edit_ok 2), Click (GoToStep Editing),
               Click ManualAssemble]
              (\<lambda>k fs. reassembleVideo example_env example_fs fs 30 (lit ''mp4'')))
           (example_ui 3))) = Complete"
  by code_simp

lemma renumbered_images:
  "map rf_base64 (map (\<lambda>(i, frame). frame\<lparr>rf_index := i\<rparr>) (enumerate k frames))
     = map rf_base64 frames"
  "map rf_url (map (\<lambda>(i, frame). frame\<lparr>rf_index := i\<rparr>) (enumerate k frames))
     = map rf_url frames"
  by (induction frames arbitrary: k) simp_all

text \<open>
  C1, amended. Every list handed to an automatic reassembly has exactly one entry for
  each index below the number of extracted frames, and the entry of index \<open>i\<close> carries no
  inline image and, as its URL, the first image URL of the answer to the edit call of
  frame \<open>i\<close>, an answer that was ok. The reassembly never looks at an index: two lists
  with the same images in the same positions have the same outcome, so a list has the
  outcome of its renumbering by position in the list, and when all frames are written
  the route names them by their position in the list.
\<close>

theorem reassembly_input:
  "(\<forall>fs. ReassembleCall False fs \<in> set (s_trace (handleProcessFrames w ui)) \<longrightarrow>
       distinct (map rf_index fs)
       \<and> set (map rf_index fs) = {0..<length (ui_extractedFrames ui)}
       \<and> fs = editedFramesForReassembly (s_allEditedFrames (handleProcessFrames w ui))
       \<and> (\<forall>frame\<in>set fs.
             rf_base64 frame = None
             \<and> (\<exists>st u us.
                   edit_answer w (rf_index frame) = Some (EditApiResponse True st (u # us))
                   \<and> rf_url frame = Some u)))
   \<and> (map rf_base64 frames_a = map rf_base64 frames_b \<and> map rf_url frames_a = map rf_url frames_b \<longrightarrow>
        reassembleVideo env disk frames_a fps fmt = reassembleVideo env disk frames_b fps fmt)
   \<and> reassembleVideo env disk frames fps fmt
        = reassembleVideo env disk
            (map (\<lambda>(i, frame). frame\<lparr>rf_index := i\<rparr>) (enumerate 0 frames)) fps fmt
   \<and> (processFrames env d 0 body disk = (disk', written, None) \<longrightarrow>
        map fst written = map frameFilename [0..<length body])"
proof -
  let ?s = "handleProcessFrames w ui"
  have a: "distinct (map rf_index fs)
       \<and> set (map rf_index fs) = {0..<length (ui_extractedFrames ui)}
       \<and> fs = editedFramesForReassembly (s_allEditedFrames ?s)
       \<and> (\<forall>frame\<in>set fs.
             rf_base64 frame = None
             \<and> (\<exists>st u us.
                   edit_answer w (rf_index frame) = Some (EditApiResponse True st (u # us))
                   \<and> rf_url frame = Some u))"
    if call: "ReassembleCall False fs \<in> set (s_trace ?s)" for fs
  proof -
    from session_inv_handleProcessFrames [of ui w] call
    have 1: "distinct (map rf_index fs) \<and> set (map rf_index fs) = {0..<length (ui_extractedFrames ui)}"
      by (simp add: session_inv_def trace_inv_def)
    from more_inv_handleProcessFrames [of w ui] call
    have 2: "fs = editedFramesForReassembly (s_allEditedFrames ?s)"
      by (simp add: handed_inv_def)
    have 3: "rf_base64 frame = None
             \<and> (\<exists>st u us.
                   edit_answer w (rf_index frame) = Some (EditApiResponse True st (u # us))
                   \<and> rf_url frame = Some u)"
      if "frame \<in> set fs" for frame
    proof -
      from that obtain edited where
        e: "edited \<in> set (s_allEditedFrames ?s)"
        and f: "frame = \<lparr>rf_index = ef_index edited, rf_base64 = None,
                         rf_url = ef_editedUrl edited\<rparr>"
        unfolding 2 by (auto simp: editedFramesForReassembly_def)
      from answers_inv_handleProcessFrames [of w ui] e obtain st u us where
        "(if ef_index edited = 0 then Some (w_firstFrame w)
          else answer_of (w_events w) (ef_index edited))
           = Some (EditApiResponse True st (u # us))"
        and "ef_editedUrl edited = Some u"
        unfolding answers_inv_def by blast
      then show ?thesis
        unfolding f edit_answer_def by (auto split: if_splits)
    qed
    from 1 2 3 show ?thesis by blast
  qed
  have b: "reassembleVideo env disk frames_a fps fmt = reassembleVideo env disk frames_b fps fmt"
    if "map rf_base64 frames_a = map rf_base64 frames_b \<and> map rf_url frames_a = map rf_url frames_b"
    using that by (intro reassembleVideo_ignores_index) simp_all
  have r: "reassembleVideo env disk frames fps fmt
        = reassembleVideo env disk
            (map (\<lambda>(i, frame). frame\<lparr>rf_index := i\<rparr>) (enumerate 0 frames)) fps fmt"
    by (rule reassembleVideo_ignores_index) (simp_all only: renumbered_images)
  have c: "map fst written = map frameFilename [0..<length body]"
    if "processFrames env d 0 body disk = (disk', written, None)"
    using processFrames_names [OF that] by simp
  from a b r c show ?thesis by blast
qed

text \<open>
  The list is in the order in which the edit calls were fulfilled: when frame 2 is
  fulfilled before frame 1, its image is handed over, and encoded, before that of
  frame 1.
\<close>

lemma example_reassembly_input_in_completion_order:
  "ReassembleCall False
      [\<lparr>rf_index = 0, rf_base64 = None, rf_url = Some (lit ''https://cdn/edited-0'')\<rparr>,
       \<lparr>rf_index = 2, rf_base64 = None, rf_url = Some (lit ''https://cdn/edited-2'')\<rparr>,
       \<lparr>rf_index = 1, rf_base64 = None, rf_url = Some (lit ''https://cdn/edited-1'')\<rparr>]
     \<in> set (s_trace (handleProcessFrames
           (example_world [Settle 2 (edit_ok 2), Settle 1 (edit_ok 1)] (\<lambda>k fs. Inr [9]))
           (example_ui 3)))"
  by code_simp

lemma example_frames_all_written:
  "snd (snd (processFrames example_env [lit ''tmp'', lit ''video_reassemble_s1''] 0
         [\<lparr>fd_base64 = None, fd_url = Some (lit ''https://cdn/edited-0'')\<rparr>,
          \<lparr>fd_base64 = None, fd_url = Some (lit ''https://cdn/edited-2'')\<rparr>]
         (mkdir_recursive example_fs [lit ''tmp'', lit ''video_reassemble_s1'']))) = None"
  by code_simp

theorem reassembly_input_witness:
  "ReassembleCall False
      [\<lparr>rf_index = 0, rf_base64 = None, rf_url = Some (lit ''https://cdn/edited-0'')\<rparr>,
       \<lparr>rf_index = 2, rf_base64 = None, rf_url = Some (lit ''https://cdn/edited-2'')\<rparr>,
       \<lparr>rf_index = 1, rf_base64 = None, rf_url = Some (lit ''https://cdn/edited-1'')\<rparr>]
     \<in> set (s_trace (handleProcessFrames
           (example_world [Settle 2 (edit_ok 2), Settle 1 (edit_ok 1)] (\<lambda>k fs. Inr [9]))
           (example_ui 3)))
   \<and> set (map rf_index
       [\<lparr>rf_index = 0, rf_base64 = None, rf_url = Some (lit ''https://cdn/edited-0'')\<rparr>,
        \<lparr>rf_index = 2, rf_base64 = None, rf_url = Some (lit ''https://cdn/edited-2'')\<rparr>,
        \<lparr>rf_index = 1, rf_base64 = None, rf_url = Some (lit ''https://cdn/edited-1'')\<rparr>])
      = {0..<length (ui_extractedFrames (example_ui 3))}
   \<and> (\<exists>st us. edit_answer
          (example_world [Settle 2 (edit_ok 2), Settle 1 (edit_ok 1)] (\<lambda>k fs. Inr [9])) 2
        = Some (EditApiResponse True st (lit ''https://cdn/edited-2'' # us)))
   \<and> reassembleVideo example_env example_fs
        [\<lparr>rf_index = 0, rf_base64 = None, rf_url = Some (lit ''https://cdn/edited-0'')\<rparr>,
         \<lparr>rf_index = 2, rf_base64 = None, rf_url = Some (lit ''https://cdn/edited-2'')\<rparr>]
        30 (lit ''mp4'')
      = reassembleVideo example_env example_fs
        [\<lparr>rf_index = 0, rf_base64 = None, rf_url = Some (lit ''https://cdn/edited-0'')\<rparr>,
         \<lparr>rf_index = 1, rf_base64 = None, rf_url = Some (lit ''https://cdn/edited-2'')\<rparr>]
        30 (lit ''mp4'')
   \<and> map fst (fst (snd (processFrames example_env [lit ''tmp'', lit ''video_reassemble_s1''] 0
         [\<lparr>fd_base64 = None, fd_url = Some (lit ''https://cdn/edited-0'')\<rparr>,
          \<lparr>fd_base64 = None, fd_url = Some (lit ''https://cdn/edited-2'')\<rparr>]
         (mkdir_recursive example_fs [lit ''tmp'', lit ''video_reassemble_s1'']))))
      = map frameFilename [0..<2]"
proof -
  let ?w = "example_world [Settle 2 (edit_ok 2), Settle 1 (edit_ok 1)] (\<lambda>k fs. Inr [9])"
  let ?a = "\<lparr>rf_index = 0, rf_base64 = None, rf_url = Some (lit ''https://cdn/edited-0'')\<rparr>"
  let ?b = "\<lparr>rf_index = 2, rf_base64 = None, rf_url = Some (lit ''https://cdn/edited-2'')\<rparr>"
  let ?c = "\<lparr>rf_index = 1, rf_base64 = None, rf_url = Some (lit ''https://cdn/edited-1'')\<rparr>"
  let ?b' = "\<lparr>rf_index = 1, rf_base64 = None, rf_url = Some (lit ''https://cdn/edited-2'')\<rparr>"
  let ?body = "[\<lparr>fd_base64 = None, fd_url = Some (lit ''https://cdn/edited-0'')\<rparr>,
          \<lparr>fd_base64 = None, fd_url = Some (lit ''https://cdn/edited-2'')\<rparr>]"
  let ?d = "[lit ''tmp'', lit ''video_reassemble_s1'']"
  let ?run = "processFrames example_env ?d 0 ?body (mkdir_recursive example_fs ?d)"
  note inst = reassembly_input [where w = ?w and ui = "example_ui 3"
      and frames_a = "[?a, ?b]" and frames_b = "[?a, ?b']" and env = example_env
      and disk = example_fs and fps = 30 and fmt = "lit ''mp4''"]
  note inst' = reassembly_input [where env = example_env and d = ?d and body = ?body
      and disk = "mkdir_recursive example_fs ?d" and disk' = "fst ?run"
      and written = "fst (snd ?run)"]
  have same: "map rf_base64 [?a, ?b] = map rf_base64 [?a, ?b']
      \<and> map rf_url [?a, ?b] = map rf_url [?a, ?b']"
    by simp
  have run: "?run = (fst ?run, fst (snd ?run), None)"
    using example_frames_all_written by (metis prod.collapse)
  have len: "length ?body = 2"
    by simp
  note call = example_reassembly_input_in_completion_order
  from inst call have "\<forall>frame\<in>set [?a, ?b, ?c].
      \<exists>st u us. edit_answer ?w (rf_index frame) = Some (EditApiResponse True st (u # us))
                \<and> rf_url frame = Some u"
    by blast
  then have "\<exists>st u us. edit_answer ?w (rf_index ?b) = Some (EditApiResponse True st (u # us))
                \<and> rf_url ?b = Some u"
    by (simp only: list.set insert_iff ball_simps simp_thms)
  then have answer: "\<exists>st us. edit_answer ?w 2
        = Some (EditApiResponse True st (lit ''https://cdn/edited-2'' # us))"
    by simp
  from inst inst' call same run answer show ?thesis
    unfolding len by blast
qed

lemma pushed_ui [simp]:
  "ui_error (s_ui (pushed n i r s)) = ui_error (s_ui s)"
  "ui_currentStep (s_ui (pushed n i r s)) = ui_currentStep (s_ui s)"
  "ui_isProcessing (s_ui (pushed n i r s)) = ui_isProcessing (s_ui s)"
  by (simp_all add: pushed_def)

lemma resolved_ui [simp]:
  "ui_error (s_ui (resolved n s)) = ui_error (s_ui s)"
  by (simp add: resolved_def)

lemma automatic_inv_settle:
  assumes inv: "automatic_inv w n s" and len: "length frames = n"
  shows "automatic_inv w n (settle w frames i response s)"
proof (cases "i \<in> set (s_pending s)")
  case False
  with inv show ?thesis by (simp add: settle_not_pending)
next
  case pending: True
  have not_resolved: "s_join s \<noteq> Resolved"
  proof
    assume "s_join s = Resolved"
    with inv obtain s0 where "s = after_fanout w n s0" "s_pending s0 = []"
      by (auto simp: automatic_inv_def)
    then have "s_pending s = []"
      by (simp add: after_fanout_closure)
    with pending show False by simp
  qed
  show ?thesis
  proof (cases "processFrameWithDiff (frames ! i) i response")
    case (Inl err)
    from inv not_resolved show ?thesis
      by (auto simp: settle_rejected [OF pending Inl] automatic_inv_def finally_block_def
            catch_block_def list_ex_iff)
  next
    case (Inr r)
    let ?p = "pushed n i r s"
    have p: "automatic_inv w n ?p"
      using inv not_resolved by (auto simp: automatic_inv_def list_ex_iff)
    show ?thesis
    proof (cases "s_join s = Waiting \<and> removeAll i (s_pending s) = []")
      case True
      let ?s0 = "resolved n ?p"
      from True inv have "ui_error (s_ui ?s0) = None"
        and "\<not> list_ex is_reassemble (s_trace ?s0)"
        and "s_pending ?s0 = []"
        by (auto simp: automatic_inv_def list_ex_iff)
      then have 4: "\<exists>s0. after_fanout w n ?s0 = after_fanout w n s0 \<and> ui_error (s_ui s0) = None
                  \<and> \<not> list_ex is_reassemble (s_trace s0) \<and> s_pending s0 = []"
        by blast
      from inv True have 1: "ui_editedFrames (s_ui (after_fanout w n ?s0))
            = s_allEditedFrames (after_fanout w n ?s0)
          \<and> s_allEditedFrames (after_fanout w n ?s0) \<noteq> []
          \<and> ui_extractedFrames (s_ui (after_fanout w n ?s0)) \<noteq> []"
        by (simp add: after_fanout_closure automatic_inv_def)
      have j: "s_join (after_fanout w n ?s0) = Resolved"
        by (simp add: after_fanout_closure)
      from 1 4 j have "automatic_inv w n (after_fanout w n ?s0)"
        unfolding automatic_inv_def by simp
      with True show ?thesis
        using settle_fulfilled [OF pending Inr] len by simp
    next
      case False
      with p show ?thesis
        using settle_fulfilled [OF pending Inr] len by auto
    qed
  qed
qed

lemma automatic_inv_run_events:
  "automatic_inv w n s \<Longrightarrow> length frames = n \<Longrightarrow> \<forall>e\<in>set evs. \<not> is_click e \<Longrightarrow>
   automatic_inv w n (run_events w frames evs s)"
proof (induction evs arbitrary: s)
  case Nil
  then show ?case by simp
next
  case (Cons e evs)
  from Cons.prems(3) obtain i response where e: "e = Settle i response"
    by (cases e) auto
  have "automatic_inv w n (step_event w frames e s)"
    unfolding e using Cons.prems(1,2) by (simp add: automatic_inv_settle)
  with Cons show ?case by simp
qed

lemma automatic_inv_start:
  "automatic_inv w (length (ui_extractedFrames ui)) (start_pipeline w ui)"
proof (cases "ui_extractedFrames ui")
  case Nil
  then show ?thesis
    by (simp add: start_pipeline_def automatic_inv_def)
next
  case (Cons firstFrame remainingFrames)
  let ?n = "length (ui_extractedFrames ui)"
  show ?thesis
  proof (cases "firstFrameEditedUrl (w_firstFrame w)")
    case (Inl err)
    with Cons show ?thesis
      by (simp add: start_pipeline_def Let_def automatic_inv_def)
  next
    case first: (Inr editedUrl)
    show ?thesis
    proof (cases "detailedDiffSpec (w_analyzeDiff w)")
      case (Inl err)
      with Cons first show ?thesis
        by (simp add: start_pipeline_def Let_def automatic_inv_def)
    next
      case diff: (Inr spec)
      show ?thesis
      proof (cases "1 < ?n")
        case True
        with Cons first diff show ?thesis
          by (auto simp: start_pipeline_def Let_def automatic_inv_def list_ex_iff)
      next
        case False
        obtain s0 where eq: "start_pipeline w ui = after_fanout w ?n s0"
          and tr: "s_trace s0 =
             [EditFrameCall 0 (firstFramePrompt (ui_prompt ui)) [xf_base64 firstFrame],
              EditFrameSettled 0 True,
              AnalyzeDiffCall (ui_prompt ui) (xf_base64 firstFrame) editedUrl,
              AnalyzeDiffSettled True]"
          and pend: "s_pending s0 = []"
          and join: "s_join s0 = Resolved"
          and err: "ui_error (s_ui s0) = None"
          and ed: "ui_editedFrames (s_ui s0) = s_allEditedFrames s0"
          and ne: "s_allEditedFrames s0 \<noteq> []"
          and ex: "ui_extractedFrames (s_ui s0) \<noteq> []"
          using Cons first diff False by (simp add: start_pipeline_def Let_def)
        have "\<exists>s1. after_fanout w ?n s0 = after_fanout w ?n s1 \<and> ui_error (s_ui s1) = None
                  \<and> \<not> list_ex is_reassemble (s_trace s1) \<and> s_pending s1 = []"
          using err pend tr by (intro exI [of _ s0]) simp
        with join ed ne ex show ?thesis
          unfolding eq automatic_inv_def by (simp add: after_fanout_closure)
      qed
    qed
  qed
qed

lemma automatic_inv_handleProcessFrames:
  "\<forall>e\<in>set (w_events w). \<not> is_click e \<Longrightarrow>
   automatic_inv w (length (ui_extractedFrames ui)) (handleProcessFrames w ui)"
  unfolding handleProcessFrames_def
  by (rule automatic_inv_run_events [OF automatic_inv_start refl])

text \<open>
  C3, amended. In an automatic run (no click) in which a dispatched edit call is
  rejected: the component shows the preview step with the error and processes nothing;
  no reassembly is called; the React state keeps the frame of every edit call that was
  fulfilled, before or after the rejection, each once, the reference frame among them.
  The button for manual assembly is not rendered in the preview step; the editing step
  can be opened from the step indicator, and there it is rendered, with the frames kept.
\<close>

theorem partial_failure_keeps_frames:
  assumes no_clicks: "\<forall>e\<in>set (w_events w). \<not> is_click e"
    and rejected: "s_join (handleProcessFrames w ui) = Rejected"
  shows "ui_currentStep (s_ui (handleProcessFrames w ui)) = PreviewFrames
     \<and> ui_error (s_ui (handleProcessFrames w ui)) \<noteq> None
     \<and> \<not> ui_isProcessing (s_ui (handleProcessFrames w ui))
     \<and> ui_editedFrames (s_ui (handleProcessFrames w ui)) \<noteq> []
     \<and> distinct (map ef_index (ui_editedFrames (s_ui (handleProcessFrames w ui))))
     \<and> set (map ef_index (ui_editedFrames (s_ui (handleProcessFrames w ui))))
          = {i. EditFrameSettled i True \<in> set (s_trace (handleProcessFrames w ui))}
     \<and> \<not> list_ex is_reassemble (s_trace (handleProcessFrames w ui))
     \<and> \<not> manual_assemble_visible (s_ui (handleProcessFrames w ui))
     \<and> step_clickable Editing (s_ui (handleProcessFrames w ui))
     \<and> manual_assemble_visible (handleGoToStep Editing (s_ui (handleProcessFrames w ui)))
     \<and> ui_editedFrames (handleGoToStep Editing (s_ui (handleProcessFrames w ui)))
          = ui_editedFrames (s_ui (handleProcessFrames w ui))"
proof -
  let ?s = "handleProcessFrames w ui"
  let ?n = "length (ui_extractedFrames ui)"
  from automatic_inv_handleProcessFrames [OF no_clicks, of ui] rejected
  have ed: "ui_editedFrames (s_ui ?s) = s_allEditedFrames ?s"
    and ne: "s_allEditedFrames ?s \<noteq> []"
    and ex: "ui_extractedFrames (s_ui ?s) \<noteq> []"
    and step: "ui_currentStep (s_ui ?s) = PreviewFrames"
    and err: "ui_error (s_ui ?s) \<noteq> None"
    and proc: "\<not> ui_isProcessing (s_ui ?s)"
    and none: "\<not> list_ex is_reassemble (s_trace ?s)"
    by (simp_all add: automatic_inv_def)
  from session_inv_handleProcessFrames [of ui w]
  have dist: "distinct (map ef_index (s_allEditedFrames ?s))"
    by (simp add: session_inv_def closure_inv_def)
  from more_inv_handleProcessFrames [of w ui] rejected
  have ful: "set (map ef_index (s_allEditedFrames ?s))
      = {i. EditFrameSettled i True \<in> set (s_trace ?s)}"
    by (simp add: fulfilled_inv_def)
  have hidden: "\<not> manual_assemble_visible (s_ui ?s)"
    using step by (simp add: manual_assemble_visible_def)
  have click: "step_clickable Editing (s_ui ?s)"
    using ex by simp
  have shown: "manual_assemble_visible (handleGoToStep Editing (s_ui ?s))"
    using ed ne by (simp add: manual_assemble_visible_def handleGoToStep_def)
  have kept: "ui_editedFrames (handleGoToStep Editing (s_ui ?s)) = ui_editedFrames (s_ui ?s)"
    by (simp add: handleGoToStep_def)
  from step err proc ne dist ful none hidden click shown kept show ?thesis
    unfolding ed by blast
qed

lemma example_partial_failure:
  "session_summary (handleProcessFrames
      (example_world
         [Settle 1 (edit_ok 1), Settle 2 (edit_ok 2), Settle 3 (edit_ok 3), Settle 4 (edit_ok 4),
          Settle 5 edit_failed, Settle 6 (edit_ok 6), Settle 7 (edit_ok 7), Settle 8 (edit_ok 8),
          Settle 9 (edit_ok 9)]
         (\<lambda>k fs. Inr [9]))
      (example_ui 10))
   = (Rejected, PreviewFrames, False, True, [0, 1, 2, 3, 4, 6, 7, 8, 9], False, 0)"
  by code_simp

text \<open>
  C3, as stated, fails. Ten frames are extracted and the edit call of frame 5 is
  rejected while the other eight dispatched calls are fulfilled: nine edited frames are
  retained, but the component is in the preview step, which does not render the manual
  assembly button.
\<close>

theorem partial_failure_hides_manual_assembly:
  "ui_currentStep (s_ui (handleProcessFrames
      (example_world
         [Settle 1 (edit_ok 1), Settle 2 (edit_ok 2), Settle 3 (edit_ok 3), Settle 4 (edit_ok 4),
          Settle 5 edit_failed, Settle 6 (edit_ok 6), Settle 7 (edit_ok 7), Settle 8 (edit_ok 8),
          Settle 9 (edit_ok 9)]
         (\<lambda>k fs. Inr [9]))
      (example_ui 10))) = PreviewFrames
   \<and> length (ui_editedFrames (s_ui (handleProcessFrames
      (example_world
         [Settle 1 (edit_ok 1), Settle 2 (edit_ok 2), Settle 3 (edit_ok 3), Settle 4 (edit_ok 4),
          Settle 5 edit_failed, Settle 6 (edit_ok 6), Settle 7 (edit_ok 7), Settle 8 (edit_ok 8),
          Settle 9 (edit_ok 9)]
         (\<lambda>k fs. Inr [9]))
      (example_ui 10)))) = 9
   \<and> \<not> manual_assemble_visible (s_ui (handleProcessFrames
      (example_world
         [Settle 1 (edit_ok 1), Settle 2 (edit_ok 2), Settle 3 (edit_ok 3), Settle 4 (edit_ok 4),
          Settle 5 edit_failed, Settle 6 (edit_ok 6), Settle 7 (edit_ok 7), Settle 8 (edit_ok 8),
          Settle 9 (edit_ok 9)]
         (\<lambda>k fs. Inr [9]))
      (example_ui 10)))"
proof -
  let ?s = "handleProcessFrames
      (example_world
         [Settle 1 (edit_ok 1), Settle 2 (edit_ok 2), Settle 3 (edit_ok 3), Settle 4 (edit_ok 4),
          Settle 5 edit_failed, Settle 6 (edit_ok 6), Settle 7 (edit_ok 7), Settle 8 (edit_ok 8),
          Settle 9 (edit_ok 9)]
         (\<lambda>k fs. Inr [9]))
      (example_ui 10)"
  from example_partial_failure
  have step: "ui_currentStep (s_ui ?s) = PreviewFrames"
    and idx: "map ef_index (ui_editedFrames (s_ui ?s)) = [0, 1, 2, 3, 4, 6, 7, 8, 9]"
    and hidden: "\<not> manual_assemble_visible (s_ui ?s)"
    by (simp_all add: session_summary_def)
  from idx have "length (map ef_index (ui_editedFrames (s_ui ?s))) = 9"
    by simp
  then have "length (ui_editedFrames (s_ui ?s)) = 9"
    by simp
  with step hidden show ?thesis
    by blast
qed

theorem partial_failure_keeps_frames_witness:
  "s_join (handleProcessFrames
      (example_world
         [Settle 1 (edit_ok 1), Settle 2 (edit_ok 2), Settle 3 (edit_ok 3), Settle 4 (edit_ok 4),
          Settle 5 edit_failed, Settle 6 (edit_ok 6), Settle 7 (edit_ok 7), Settle 8 (edit_ok 8),
          Settle 9 (edit_ok 9)]
         (\<lambda>k fs. Inr [9]))
      (example_ui 10)) = Rejected
   \<and> map ef_index (ui_editedFrames (s_ui (handleProcessFrames
      (example_world
         [Settle 1 (edit_ok 1), Settle 2 (edit_ok 2), Settle 3 (edit_ok 3), Settle 4 (edit_ok 4),
          Settle 5 edit_failed, Settle 6 (edit_ok 6), Settle 7 (edit_ok 7), Settle 8 (edit_ok 8),
          Settle 9 (edit_ok 9)]
         (\<lambda>k fs. Inr [9]))
      (example_ui 10)))) = [0, 1, 2, 3, 4, 6, 7, 8, 9]
   \<and> \<not> list_ex is_reassemble (s_trace (handleProcessFrames
      (example_world
         [Settle 1 (edit_ok 1), Settle 2 (edit_ok 2), Settle 3 (edit_ok 3), Settle 4 (edit_ok 4),
          Settle 5 edit_failed, Settle 6 (edit_ok 6), Settle 7 (edit_ok 7), Settle 8 (edit_ok 8),
          Settle 9 (edit_ok 9)]
         (\<lambda>k fs. Inr [9]))
      (example_ui 10)))
   \<and> manual_assemble_visible (handleGoToStep Editing (s_ui (handleProcessFrames
      (example_world
         [Settle 1 (edit_ok 1), Settle 2 (edit_ok 2), Settle 3 (edit_ok 3), Settle 4 (edit_ok 4),
          Settle 5 edit_failed, Settle 6 (edit_ok 6), Settle 7 (edit_ok 7), Settle 8 (edit_ok 8),
          Settle 9 (edit_ok 9)]
         (\<lambda>k fs. Inr [9]))
      (example_ui 10))))"
proof -
  let ?w = "example_world
         [Settle 1 (edit_ok 1), Settle 2 (edit_ok 2), Settle 3 (edit_ok 3), Settle 4 (edit_ok 4),
          Settle 5 edit_failed, Settle 6 (edit_ok 6), Settle 7 (edit_ok 7), Settle 8 (edit_ok 8),
          Settle 9 (edit_ok 9)]
         (\<lambda>k fs. Inr [9])"
  let ?s = "handleProcessFrames ?w (example_ui 10)"
  have no_clicks: "\<forall>e\<in>set (w_events ?w). \<not> is_click e"
    by (simp add: example_world_def)
  from example_partial_failure
  have rejected: "s_join ?s = Rejected"
    and idx: "map ef_index (ui_editedFrames (s_ui ?s)) = [0, 1, 2, 3, 4, 6, 7, 8, 9]"
    by (simp_all add: session_summary_def)
  from partial_failure_keeps_frames [OF no_clicks rejected] rejected idx show ?thesis
    by blast
qed

lemma click_manual_assemble_trace:
  assumes "manual_assemble_visible (s_ui s)"
  shows "\<exists>ok. s_trace (click w' ManualAssemble s) =
           s_trace s @ [ReassembleCall True (editedFramesForReassembly (ui_editedFrames (s_ui s))),
                        ReassembleSettled ok]"
  using assms
  by (auto simp: click_def handleManualAssemble_def manual_assemble_visible_def Let_def
        split: sum.splits)

text \<open>
  C4. No session makes more than two automatic reassembly attempts. In an automatic run
  (no click) whose fan-out completed, the calls end in one of three ways: the first
  attempt succeeds; the first fails, one second is waited, and the second succeeds; or
  both fail with the wait between them. In the last case the component is back in the
  editing step, processes nothing and shows no error, the React state holds the very
  frames that were handed to the two attempts (one per extracted frame), the manual
  assembly button is rendered, and pressing it calls the reassembly on these frames.
\<close>

theorem reassembly_retry_and_fallback:
  "length (filter is_automatic_reassemble (s_trace (handleProcessFrames w ui))) \<le> 2
   \<and> ((\<forall>e\<in>set (w_events w). \<not> is_click e) \<and> s_join (handleProcessFrames w ui) = Resolved \<longrightarrow>
        (\<exists>pre fs.
           \<not> list_ex is_reassemble pre
           \<and> set (map rf_index fs) = {0..<length (ui_extractedFrames ui)}
           \<and> ((\<exists>v. s_trace (handleProcessFrames w ui)
                      = pre @ [ReassembleCall False fs, ReassembleSettled True, OnComplete v]
                    \<and> ui_currentStep (s_ui (handleProcessFrames w ui)) = Complete
                    \<and> ui_editedVideoUrl (s_ui (handleProcessFrames w ui)) = Some v)
              \<or> (\<exists>v. s_trace (handleProcessFrames w ui)
                      = pre @ [ReassembleCall False fs, ReassembleSettled False, Wait 1000,
                               ReassembleCall False fs, ReassembleSettled True, OnComplete v]
                    \<and> ui_currentStep (s_ui (handleProcessFrames w ui)) = Complete
                    \<and> ui_editedVideoUrl (s_ui (handleProcessFrames w ui)) = Some v)
              \<or> (s_trace (handleProcessFrames w ui)
                      = pre @ [ReassembleCall False fs, ReassembleSettled False, Wait 1000,
                               ReassembleCall False fs, ReassembleSettled False]
                  \<and> ui_currentStep (s_ui (handleProcessFrames w ui)) = Editing
                  \<and> \<not> ui_isProcessing (s_ui (handleProcessFrames w ui))
                  \<and> ui_error (s_ui (handleProcessFrames w ui)) = None
                  \<and> editedFramesForReassembly
                       (ui_editedFrames (s_ui (handleProcessFrames w ui))) = fs
                  \<and> manual_assemble_visible (s_ui (handleProcessFrames w ui))
                  \<and> (\<forall>w'. \<exists>ok. s_trace (click w' ManualAssemble (handleProcessFrames w ui))
                        = s_trace (handleProcessFrames w ui)
                          @ [ReassembleCall True fs, ReassembleSettled ok])))))"
proof -
  let ?s = "handleProcessFrames w ui"
  let ?n = "length (ui_extractedFrames ui)"
  from session_inv_handleProcessFrames [of ui w]
  have count: "length (filter is_automatic_reassemble (s_trace ?s)) \<le> 2"
    and handed: "\<forall>fs. ReassembleCall False fs \<in> set (s_trace ?s) \<longrightarrow>
        set (map rf_index fs) = {0..<?n}"
    by (simp_all add: session_inv_def trace_inv_def)
  have main: "\<exists>pre fs.
           \<not> list_ex is_reassemble pre
           \<and> set (map rf_index fs) = {0..<?n}
           \<and> ((\<exists>v. s_trace ?s = pre @ [ReassembleCall False fs, ReassembleSettled True, OnComplete v]
                    \<and> ui_currentStep (s_ui ?s) = Complete
                    \<and> ui_editedVideoUrl (s_ui ?s) = Some v)
              \<or> (\<exists>v. s_trace ?s
                      = pre @ [ReassembleCall False fs, ReassembleSettled False, Wait 1000,
                               ReassembleCall False fs, ReassembleSettled True, OnComplete v]
                    \<and> ui_currentStep (s_ui ?s) = Complete
                    \<and> ui_editedVideoUrl (s_ui ?s) = Some v)
              \<or> (s_trace ?s
                      = pre @ [ReassembleCall False fs, ReassembleSettled False, Wait 1000,
                               ReassembleCall False fs, ReassembleSettled False]
                  \<and> ui_currentStep (s_ui ?s) = Editing
                  \<and> \<not> ui_isProcessing (s_ui ?s)
                  \<and> ui_error (s_ui ?s) = None
                  \<and> editedFramesForReassembly (ui_editedFrames (s_ui ?s)) = fs
                  \<and> manual_assemble_visible (s_ui ?s)
                  \<and> (\<forall>w'. \<exists>ok. s_trace (click w' ManualAssemble ?s)
                        = s_trace ?s @ [ReassembleCall True fs, ReassembleSettled ok])))"
    if no_clicks: "\<forall>e\<in>set (w_events w). \<not> is_click e" and resolved: "s_join ?s = Resolved"
  proof -
    from automatic_inv_handleProcessFrames [OF no_clicks, of ui] resolved
    obtain s0 where eq: "?s = after_fanout w ?n s0"
      and err0: "ui_error (s_ui s0) = None"
      and none0: "\<not> list_ex is_reassemble (s_trace s0)"
      and ed: "ui_editedFrames (s_ui ?s) = s_allEditedFrames ?s"
      and ne: "s_allEditedFrames ?s \<noteq> []"
      by (auto simp: automatic_inv_def)
    let ?fs = "editedFramesForReassembly (s_allEditedFrames s0)"
    let ?pre = "s_trace s0 @ [ValidateUrls (map rf_url (take 3 ?fs))]"
    have all: "s_allEditedFrames ?s = s_allEditedFrames s0"
      unfolding eq by (simp add: after_fanout_closure)
    have pre: "\<not> list_ex is_reassemble ?pre"
      using none0 by (simp add: list_ex_iff)
    have fs: "editedFramesForReassembly (ui_editedFrames (s_ui ?s)) = ?fs"
      by (simp add: ed all)
    consider (a) v where "w_reassembleVideo w (Suc 0) ?fs = Inr v"
      | (b) e v where "w_reassembleVideo w (Suc 0) ?fs = Inl e"
           "w_reassembleVideo w (Suc (Suc 0)) ?fs = Inr v"
      | (c) e e' where "w_reassembleVideo w (Suc 0) ?fs = Inl e"
           "w_reassembleVideo w (Suc (Suc 0)) ?fs = Inl e'"
      by (metis sum.exhaust)
    then show ?thesis
    proof cases
      case a
      from after_fanout_first_attempt [OF a, of ?n]
      have tr: "s_trace ?s = ?pre @ [ReassembleCall False ?fs, ReassembleSettled True, OnComplete v]"
        and ui: "ui_currentStep (s_ui ?s) = Complete" "ui_editedVideoUrl (s_ui ?s) = Some v"
        unfolding eq by simp_all
      from tr handed have "set (map rf_index ?fs) = {0..<?n}"
        by simp
      with pre tr ui show ?thesis
        by blast
    next
      case b
      from after_fanout_second_attempt [OF b, of ?n]
      have tr: "s_trace ?s = ?pre @ [ReassembleCall False ?fs, ReassembleSettled False, Wait 1000,
                  ReassembleCall False ?fs, ReassembleSettled True, OnComplete v]"
        and ui: "ui_currentStep (s_ui ?s) = Complete" "ui_editedVideoUrl (s_ui ?s) = Some v"
        unfolding eq by simp_all
      from tr handed have "set (map rf_index ?fs) = {0..<?n}"
        by simp
      with pre tr ui show ?thesis
        by blast
    next
      case c
      from after_fanout_no_attempt_left [OF c, of ?n]
      have tr: "s_trace ?s = ?pre @ [ReassembleCall False ?fs, ReassembleSettled False, Wait 1000,
                  ReassembleCall False ?fs, ReassembleSettled False]"
        and ui: "ui_currentStep (s_ui ?s) = Editing" "\<not> ui_isProcessing (s_ui ?s)"
          "ui_error (s_ui ?s) = None"
        unfolding eq using err0 by simp_all
      from tr handed have idx: "set (map rf_index ?fs) = {0..<?n}"
        by simp
      have vis: "manual_assemble_visible (s_ui ?s)"
        using ui ed ne by (simp add: manual_assemble_visible_def)
      have man: "\<forall>w'. \<exists>ok. s_trace (click w' ManualAssemble ?s)
            = s_trace ?s @ [ReassembleCall True ?fs, ReassembleSettled ok]"
        using click_manual_assemble_trace [OF vis] unfolding fs by blast
      from pre idx tr ui fs vis man show ?thesis
        by blast
    qed
  qed
  from count main show ?thesis
    by blast
qed

theorem reassembly_retry_and_fallback_witness:
  "s_join (handleProcessFrames
      (example_world [Settle 2 (edit_ok 2), Settle 1 (edit_ok 1)]
         (\<lambda>k fs. Inl (JsError (lit ''Failed to reassemble video''))))
      (example_ui 3)) = Resolved
   \<and> length (filter is_automatic_reassemble (s_trace (handleProcessFrames
      (example_world [Settle 2 (edit_ok 2), Settle 1 (edit_ok 1)]
         (\<lambda>k fs. Inl (JsError (lit ''Failed to reassemble video''))))
      (example_ui 3)))) = 2
   \<and> ui_currentStep (s_ui (handleProcessFrames
      (example_world [Settle 2 (edit_ok 2), Settle 1 (edit_ok 1)]
         (\<lambda>k fs. Inl (JsError (lit ''Failed to reassemble video''))))
      (example_ui 3))) = Editing
   \<and> manual_assemble_visible (s_ui (handleProcessFrames
      (example_world [Settle 2 (edit_ok 2), Settle 1 (edit_ok 1)]
         (\<lambda>k fs. Inl (JsError (lit ''Failed to reassemble video''))))
      (example_ui 3)))
   \<and> (\<exists>pre fs. s_trace (handleProcessFrames
      (example_world [Settle 2 (edit_ok 2), Settle 1 (edit_ok 1)]
         (\<lambda>k fs. Inl (JsError (lit ''Failed to reassemble video''))))
      (example_ui 3))
        = pre @ [ReassembleCall False fs, ReassembleSettled False, Wait 1000,
                 ReassembleCall False fs, ReassembleSettled False])"
proof -
  let ?w = "example_world [Settle 2 (edit_ok 2), Settle 1 (edit_ok 1)]
         (\<lambda>k fs. Inl (JsError (lit ''Failed to reassemble video'')))"
  let ?s = "handleProcessFrames ?w (example_ui 3)"
  have no_clicks: "\<forall>e\<in>set (w_events ?w). \<not> is_click e"
    by (simp add: example_world_def)
  from example_session_out_of_order
  have resolved: "s_join ?s = Resolved"
    and count: "length (filter is_automatic_reassemble (s_trace ?s)) = 2"
    and step: "ui_currentStep (s_ui ?s) = Editing"
    and vis: "manual_assemble_visible (s_ui ?s)"
    by (simp_all add: session_summary_def)
  from reassembly_retry_and_fallback [of ?w "example_ui 3"] no_clicks resolved
  obtain pre fs where
    "(\<exists>v. s_trace ?s = pre @ [ReassembleCall False fs, ReassembleSettled True, OnComplete v]
          \<and> ui_currentStep (s_ui ?s) = Complete \<and> ui_editedVideoUrl (s_ui ?s) = Some v)
     \<or> (\<exists>v. s_trace ?s
            = pre @ [ReassembleCall False fs, ReassembleSettled False, Wait 1000,
                     ReassembleCall False fs, ReassembleSettled True, OnComplete v]
          \<and> ui_currentStep (s_ui ?s) = Complete \<and> ui_editedVideoUrl (s_ui ?s) = Some v)
     \<or> s_trace ?s
            = pre @ [ReassembleCall False fs, ReassembleSettled False, Wait 1000,
                     ReassembleCall False fs, ReassembleSettled False]"
    by blast
  with step have "s_trace ?s
            = pre @ [ReassembleCall False fs, ReassembleSettled False, Wait 1000,
                     ReassembleCall False fs, ReassembleSettled False]"
    by auto
  with resolved count step vis show ?thesis
    by blast
qed

end
